theory Spec2Isabelle
  imports Main "HOL-Library.Sublist"
begin

section \<open>Data model\<close>

text \<open>
  Values of the generation backend's responses, as the handler inspects them: plain
  JSON trees. An object is the list of its own enumerable properties in the order
  \<^verbatim>\<open>Object.keys\<close> lists them (keys distinct). A getter of the SDK (\<^verbatim>\<open>.text\<close>) is
  a property of that name. \<^verbatim>\<open>undefined\<close> and \<^verbatim>\<open>null\<close> are both \<open>JNull\<close>: the
  handler only tests them for truthiness or behind \<^verbatim>\<open>?.\<close>.
\<close>

datatype json =
    JNull
  | JBool bool
  | JNum int
  | JStr string
  | JArr "json list"
  | JObj "(string \<times> json) list"

text \<open>An image stored in a slot: \<^verbatim>\<open>{ data: img.base64, mime: img.mime, ts: now() }\<close>.\<close>

record image =
  data :: string
  mime :: string
  ts :: int

text \<open>
  A session object. A slot that is \<^verbatim>\<open>undefined\<close> (never assigned, or assigned
  \<^verbatim>\<open>undefined\<close>) is \<open>None\<close>; a stored image object is always truthy.
\<close>

record session =
  selfie :: "image option"
  clothing :: "image option"
  inProgress :: bool
  lastUpdated :: int

datatype slot = Selfie | Clothing

datatype part = InlineData string string | TextPart string

record gen_request =
  model :: string
  contents :: "part list"

datatype message =
    RCSImage string string string string
  | ImageMessage string string string string
  | TextMessage string string string

text \<open>
  What a turn does to the outside world, in order. \<open>Send m ok\<close> is one call of
  \<^verbatim>\<open>vonage.messages.send\<close> with whether its promise resolved.
\<close>

datatype action =
    Send message bool
  | GenerateContentStream gen_request
  | GenerateContent gen_request
  | WriteFile string json bool
  | Respond nat

text \<open>
  Configuration read at start-up, and the two functions of the platform that the
  handler's results depend on, taken as parameters: \<^verbatim>\<open>Buffer.toString("base64")\<close>
  and \<^verbatim>\<open>String.prototype.toLowerCase\<close>. \<open>PUBLIC_BASE_URL\<close> empty stands for
  the variable being unset.
\<close>

record config =
  IMAGE_MAX_BYTES :: int
  SESSION_TTL_MS :: int
  RCS_SENDER_ID :: string
  PUBLIC_BASE_URL :: string
  toBase64 :: "string \<Rightarrow> string"
  toLowerCase :: "string \<Rightarrow> string"

text \<open>
  The process-wide state. Session objects live in a heap of references, because the
  handler keeps a reference (\<^verbatim>\<open>const session\<close>) across calls that may replace the
  table's entry: \<open>userSessions\<close> maps a phone number to the address of its current
  object, \<open>next_ref\<close> is the next unused address. \<open>clock\<close> is the sequence of values
  that successive calls of \<^verbatim>\<open>Date.now()\<close> return and \<open>ticks\<close> counts the calls made.
\<close>

record world =
  heap :: "nat \<Rightarrow> session"
  next_ref :: nat
  userSessions :: "string \<rightharpoonup> nat"
  clock :: "nat \<Rightarrow> int"
  ticks :: nat
  trace :: "action list"

section \<open>Session store\<close>

definition now :: "world \<Rightarrow> int \<times> world" where
  "now w = (clock w (ticks w), w\<lparr>ticks := Suc (ticks w)\<rparr>)"

text \<open>The object literal \<^verbatim>\<open>{ lastUpdated: now(), inProgress: false }\<close>.\<close>

definition fresh_session :: "int \<Rightarrow> session" where
  "fresh_session t = \<lparr>selfie = None, clothing = None, inProgress = False, lastUpdated = t\<rparr>"

text \<open>\<^verbatim>\<open>userSessions[userPhone] = { lastUpdated: now(), inProgress: false }\<close>\<close>

definition install_fresh :: "string \<Rightarrow> world \<Rightarrow> nat \<times> world" where
  "install_fresh userPhone w =
     (let (t, w1) = now w; a = next_ref w1
      in (a, w1\<lparr>heap := (heap w1)(a := fresh_session t),
                 next_ref := Suc a,
                 userSessions := (userSessions w1)(userPhone \<mapsto> a)\<rparr>))"

definition getSession :: "config \<Rightarrow> string \<Rightarrow> world \<Rightarrow> nat \<times> world" where
  "getSession cfg userPhone w =
     (case userSessions w userPhone of
        None \<Rightarrow> install_fresh userPhone w
      | Some s \<Rightarrow>
          (let (t, w1) = now w
           in if t - lastUpdated (heap w1 s) > SESSION_TTL_MS cfg
              then install_fresh userPhone w1
              else (s, w1)))"

definition resetSession :: "string \<Rightarrow> world \<Rightarrow> world" where
  "resetSession userPhone w = snd (install_fresh userPhone w)"

text \<open>
  \<^verbatim>\<open>updateSession(userPhone, patch)\<close>: the patch is the function that
  \<^verbatim>\<open>Object.assign\<close> applies to the object.
\<close>

definition updateSession :: "config \<Rightarrow> string \<Rightarrow> (session \<Rightarrow> session) \<Rightarrow> world \<Rightarrow> world" where
  "updateSession cfg userPhone patch w =
     (let (s, w1) = getSession cfg userPhone w;
          w2 = w1\<lparr>heap := (heap w1)(s := patch (heap w1 s))\<rparr>;
          (t, w3) = now w2
      in w3\<lparr>heap := (heap w3)(s := (heap w3 s)\<lparr>lastUpdated := t\<rparr>)\<rparr>)"

text \<open>The session the table currently holds for a user, if any.\<close>

definition current :: "world \<Rightarrow> string \<Rightarrow> session option" where
  "current w userPhone = map_option (heap w) (userSessions w userPhone)"

definition is_empty :: "session \<Rightarrow> bool" where
  "is_empty s = (selfie s = None \<and> clothing s = None \<and> \<not> inProgress s)"

section \<open>Strings\<close>

text \<open>
  A string of the program is the byte sequence of its UTF-8 encoding. A character
  outside ASCII is a run of bytes above 127; none of them is a word character
  \<^verbatim>\<open>[A-Za-z0-9_]\<close> of a regular expression, as none of its code units is, and
  none occurs in the words the handler looks for. Lower-casing is the platform's
  (\<open>toLowerCase\<close> of the configuration): it is not a map over the characters, for it
  turns the Kelvin sign into \<^verbatim>\<open>k\<close> and the dotted capital I into \<^verbatim>\<open>i\<close> and a
  combining dot.
\<close>

definition capitals :: string where
  "capitals = ''ABCDEFGHIJKLMNOPQRSTUVWXYZ''"

definition smalls :: string where
  "smalls = ''abcdefghijklmnopqrstuvwxyz''"

definition is_word_char :: "char \<Rightarrow> bool" where
  "is_word_char c = (c \<in> set (capitals @ smalls @ ''0123456789_''))"

text \<open>\<^verbatim>\<open>s.includes(needle)\<close>\<close>

fun str_includes :: "string \<Rightarrow> string \<Rightarrow> bool" where
  "str_includes [] needle = (needle = [])"
| "str_includes (c # cs) needle = (prefix needle (c # cs) \<or> str_includes cs needle)"

text \<open>Truthiness of a value that is a string, \<^verbatim>\<open>null\<close> or \<^verbatim>\<open>undefined\<close>.\<close>

fun truthy_str :: "string option \<Rightarrow> bool" where
  "truthy_str None = False"
| "truthy_str (Some s) = (s \<noteq> [])"

subsection \<open>The regular expressions \<^verbatim>\<open>/\b(w1|...|wn)\b/\<close>\<close>

text \<open>
  \<^verbatim>\<open>\b\<close> holds between two positions when exactly one of the neighbouring
  characters is a word character; the start and the end of the text count as
  non-word. \<open>match_here\<close> tries the expression at the current position, given the
  character that precedes it; \<open>regex_test\<close> is \<^verbatim>\<open>RegExp.prototype.test\<close>: it tries every
  position from left to right.
\<close>

fun is_word :: "char option \<Rightarrow> bool" where
  "is_word None = False"
| "is_word (Some c) = is_word_char c"

definition boundary :: "char option \<Rightarrow> char option \<Rightarrow> bool" where
  "boundary prev after = (is_word prev \<noteq> is_word after)"

fun first_char :: "string \<Rightarrow> char option" where
  "first_char [] = None"
| "first_char (c # cs) = Some c"

definition match_alt :: "char option \<Rightarrow> string \<Rightarrow> string \<Rightarrow> bool" where
  "match_alt prev s w =
     (prefix w s \<and>
      boundary (if w = [] then prev else Some (last w)) (first_char (drop (length w) s)))"

definition match_here :: "string list \<Rightarrow> char option \<Rightarrow> string \<Rightarrow> bool" where
  "match_here alts prev s = (boundary prev (first_char s) \<and> list_ex (match_alt prev s) alts)"

fun regex_test :: "string list \<Rightarrow> char option \<Rightarrow> string \<Rightarrow> bool" where
  "regex_test alts prev [] = match_here alts prev []"
| "regex_test alts prev (c # cs) =
     (match_here alts prev (c # cs) \<or> regex_test alts (Some c) cs)"

definition selfie_words :: "string list" where
  "selfie_words = [''selfie'', ''me'', ''face'', ''portrait'']"

definition clothing_words :: "string list" where
  "clothing_words = [''clothing'', ''dress'', ''shirt'', ''outfit'', ''attire'', ''wear'']"

section \<open>Message classifier\<close>

text \<open>
  The handler's decision of \<^verbatim>\<open>imageType\<close> from the extracted text and media URL
  and the session object it holds.
\<close>

definition classify :: "config \<Rightarrow> string option \<Rightarrow> string option \<Rightarrow> session \<Rightarrow> slot option" where
  "classify cfg text mediaUrl sess =
     (let imageType =
            (case text of
               None \<Rightarrow> None
             | Some t \<Rightarrow>
                 if t = [] then None
                 else (let lower = toLowerCase cfg t
                       in if regex_test selfie_words None lower then Some Selfie
                          else if regex_test clothing_words None lower then Some Clothing
                          else None))
      in if imageType = None \<and> truthy_str mediaUrl
         then (if selfie sess \<noteq> None then Some Clothing else Some Selfie)
         else imageType)"

section \<open>Image fetcher\<close>

text \<open>
  What the two HTTP requests of one download returned. The \<^verbatim>\<open>HEAD\<close> probe is
  \<open>None\<close> when \<^verbatim>\<open>fetch\<close> threw (\<^verbatim>\<open>head\<close> returns \<^verbatim>\<open>null\<close>); its
  \<^verbatim>\<open>content-length\<close> is the number the header holds, \<open>None\<close> when the header is
  absent. The \<^verbatim>\<open>GET\<close> is \<open>None\<close> when \<^verbatim>\<open>fetch\<close> threw; its body is \<open>None\<close>
  when \<^verbatim>\<open>res.buffer()\<close> threw.
\<close>

record head_response =
  h_status :: nat
  h_content_type :: "string option"
  h_content_length :: "nat option"

record get_response =
  g_status :: nat
  g_content_type :: "string option"
  g_body :: "string option"

text \<open>The \<^verbatim>\<open>code\<close> of the error thrown; \<open>NO_CODE\<close> is an error of the network layer.\<close>

datatype fetch_error =
    FETCH_FORBIDDEN
  | FETCH_FAILED
  | TOO_LARGE nat
  | UNSUPPORTED_WEBP
  | UNSUPPORTED_HEIC
  | UNSUPPORTED_TYPE
  | NO_CODE

record fetched =
  base64 :: string
  img_mime :: string
  img_size :: nat
  contentType :: string

definition header_or_empty :: "string option \<Rightarrow> string" where
  "header_or_empty h = (case h of None \<Rightarrow> [] | Some v \<Rightarrow> v)"

definition res_ok :: "get_response \<Rightarrow> bool" where
  "res_ok res = (200 \<le> g_status res \<and> g_status res < 300)"

definition unsupported_code :: "string \<Rightarrow> fetch_error" where
  "unsupported_code ct =
     (if str_includes ct ''image/webp'' then UNSUPPORTED_WEBP
      else if str_includes ct ''image/heic'' \<or> str_includes ct ''image/heif'' then UNSUPPORTED_HEIC
      else UNSUPPORTED_TYPE)"

text \<open>
  The three values read from the probe: \<^verbatim>\<open>headCT\<close>, \<^verbatim>\<open>headLen\<close> and
  \<^verbatim>\<open>headStatus\<close>; then \<^verbatim>\<open>ct\<close> and \<^verbatim>\<open>len\<close> as resolved after the download.
\<close>

definition headCT :: "config \<Rightarrow> head_response option \<Rightarrow> string" where
  "headCT cfg h = toLowerCase cfg (case h of None \<Rightarrow> [] | Some hr \<Rightarrow> header_or_empty (h_content_type hr))"

definition headLen :: "head_response option \<Rightarrow> nat" where
  "headLen h =
     (case h of None \<Rightarrow> 0 | Some hr \<Rightarrow> (case h_content_length hr of None \<Rightarrow> 0 | Some n \<Rightarrow> n))"

definition headStatus :: "head_response option \<Rightarrow> nat" where
  "headStatus h = (case h of None \<Rightarrow> 0 | Some hr \<Rightarrow> h_status hr)"

definition resolved_ct :: "config \<Rightarrow> head_response option \<Rightarrow> get_response \<Rightarrow> string" where
  "resolved_ct cfg h res =
     (if headCT cfg h \<noteq> [] then headCT cfg h
      else toLowerCase cfg (header_or_empty (g_content_type res)))"

definition resolved_len :: "head_response option \<Rightarrow> string \<Rightarrow> nat" where
  "resolved_len h buf = (if headLen h \<noteq> 0 then headLen h else length buf)"

definition downloadImageAsBase64IfSupported ::
  "config \<Rightarrow> head_response option \<Rightarrow> get_response option \<Rightarrow> fetch_error + fetched" where
  "downloadImageAsBase64IfSupported cfg h r =
     (if headStatus h = 401 \<or> headStatus h = 403 then Inl FETCH_FORBIDDEN
      else (case r of
              None \<Rightarrow> Inl NO_CODE
            | Some res \<Rightarrow>
                if \<not> res_ok res
                then Inl (if g_status res = 401 \<or> g_status res = 403
                          then FETCH_FORBIDDEN else FETCH_FAILED)
                else (case g_body res of
                        None \<Rightarrow> Inl NO_CODE
                      | Some buf \<Rightarrow>
                          (let ct = resolved_ct cfg h res;
                               len = resolved_len h buf
                           in if int len > IMAGE_MAX_BYTES cfg then Inl (TOO_LARGE len)
                              else (let isPng = str_includes ct ''image/png'';
                                        isJpeg = (str_includes ct ''image/jpeg'' \<or> str_includes ct ''image/jpg'')
                                    in if \<not> (isPng \<or> isJpeg) then Inl (unsupported_code ct)
                                       else Inr \<lparr>base64 = toBase64 cfg buf,
                                                 img_mime = (if isPng then ''image/png'' else ''image/jpeg''),
                                                 img_size = len,
                                                 contentType = ct\<rparr>)))))"

section \<open>Generation orchestrator\<close>

fun truthy :: "json \<Rightarrow> bool" where
  "truthy JNull = False"
| "truthy (JBool b) = b"
| "truthy (JNum n) = (n \<noteq> 0)"
| "truthy (JStr s) = (s \<noteq> [])"
| "truthy (JArr xs) = True"
| "truthy (JObj kvs) = True"

text \<open>Property access \<^verbatim>\<open>v?.k\<close>; only objects carry the properties the handler reads.\<close>

fun get_prop :: "json \<Rightarrow> string \<Rightarrow> json" where
  "get_prop (JObj kvs) k = (case map_of kvs k of None \<Rightarrow> JNull | Some v \<Rightarrow> v)"
| "get_prop v k = JNull"

text \<open>
  \<^verbatim>\<open>findInlineData\<close>. On an array the source walks the elements and then, through
  \<^verbatim>\<open>Object.keys\<close>, the same elements by index once more.
\<close>

fun findInlineData :: "json \<Rightarrow> json option"
  and findInItems :: "json list \<Rightarrow> json option"
  and findInValues :: "(string \<times> json) list \<Rightarrow> json option" where
  "findInlineData (JObj kvs) =
     (if truthy (get_prop (get_prop (JObj kvs) ''inlineData'') ''data'')
      then Some (get_prop (JObj kvs) ''inlineData'')
      else if truthy (get_prop (get_prop (JObj kvs) ''inline_data'') ''data'')
      then Some (get_prop (JObj kvs) ''inline_data'')
      else findInValues kvs)"
| "findInlineData (JArr xs) =
     (case findInItems xs of Some f \<Rightarrow> Some f | None \<Rightarrow> findInItems xs)"
| "findInlineData JNull = None"
| "findInlineData (JBool b) = None"
| "findInlineData (JNum n) = None"
| "findInlineData (JStr s) = None"
| "findInItems [] = None"
| "findInItems (it # its) =
     (case findInlineData it of Some f \<Rightarrow> Some f | None \<Rightarrow> findInItems its)"
| "findInValues [] = None"
| "findInValues (kv # kvs) =
     (case findInlineData (snd kv) of Some f \<Rightarrow> Some f | None \<Rightarrow> findInValues kvs)"

text \<open>The \<^verbatim>\<open>text\<close> of an event or response: a string, or nothing.\<close>

definition text_of :: "json \<Rightarrow> string" where
  "text_of v = (case get_prop v ''text'' of JStr s \<Rightarrow> s | _ \<Rightarrow> [])"

fun collect_loop :: "json option \<Rightarrow> string \<Rightarrow> json list \<Rightarrow> json option \<times> string" where
  "collect_loop imagePart txt [] = (imagePart, txt)"
| "collect_loop imagePart txt (ev # evs) =
     (let txt' = txt @ text_of ev;
          maybe = findInlineData ev
      in collect_loop (if maybe \<noteq> None \<and> imagePart = None then maybe else imagePart) txt' evs)"

definition collectFromStream :: "json list \<Rightarrow> json option \<times> string" where
  "collectFromStream evs = collect_loop None [] evs"

text \<open>
  How the streaming call ends: the call itself throws, the stream is consumed to its
  end, or the iteration throws after the events listed.
\<close>

datatype stream_outcome =
    StreamCallFails
  | StreamCompletes "json list"
  | StreamBreaks "json list"

text \<open>
  What the outside world answers during one turn: the two HTTP responses of the
  download, whether each message sent is accepted, the outcome of the streaming call,
  the response of the non-streaming call (\<open>None\<close> when it throws), whether the file
  could be written, and the scheme and host of the request.
\<close>

record env =
  head_result :: "head_response option"
  get_result :: "get_response option"
  send_ok :: "message \<Rightarrow> bool"
  stream_result :: stream_outcome
  full_result :: "json option"
  write_ok :: bool
  req_protocol :: string
  req_host :: string

definition MODEL_ID :: string where
  "MODEL_ID = ''gemini-2.5-flash-image''"

definition instruction :: string where
  "instruction = ''Create a stylized fashion mock-up by overlaying the clothing (2nd image) onto the person (1st image). Keep it clearly stylized (non-photorealistic), do not modify facial features, simple background.''"

definition build_request :: "image \<Rightarrow> image \<Rightarrow> gen_request" where
  "build_request sf cl =
     \<lparr>model = MODEL_ID,
      contents = [InlineData (data sf) (mime sf), InlineData (data cl) (mime cl), TextPart instruction]\<rparr>"

text \<open>
  The two-phase attempt inside \<^verbatim>\<open>try { ... } catch (e) { err(...) }\<close>: the result is
  \<^verbatim>\<open>imagePart\<close> and \<^verbatim>\<open>textResponse\<close> as they stand after the block, with the calls
  that were issued.
\<close>

definition generate :: "env \<Rightarrow> gen_request \<Rightarrow> (json option \<times> string) \<times> action list" where
  "generate e req =
     (case stream_result e of
        StreamCallFails \<Rightarrow> ((None, []), [GenerateContentStream req])
      | StreamBreaks evs \<Rightarrow> ((None, []), [GenerateContentStream req])
      | StreamCompletes evs \<Rightarrow>
          (let (imagePart, textResponse) = collectFromStream evs
           in if imagePart = None
              then (case full_result e of
                      None \<Rightarrow> ((None, textResponse), [GenerateContentStream req, GenerateContent req])
                    | Some full \<Rightarrow>
                        ((findInlineData full, textResponse @ text_of full),
                         [GenerateContentStream req, GenerateContent req]))
              else ((imagePart, textResponse), [GenerateContentStream req])))"

section \<open>Delivery pipeline\<close>

text \<open>Decimal rendering of a number inside a template string.\<close>

function show_nat :: "nat \<Rightarrow> string" where
  "show_nat n =
     (if n < 10 then [''0123456789'' ! n]
      else show_nat (n div 10) @ [''0123456789'' ! (n mod 10)])"
  by pat_completeness auto
termination
  by (relation "measure id") auto

declare show_nat.simps [simp del]

definition show_int :: "int \<Rightarrow> string" where
  "show_int i = (if i < 0 then ''-'' @ show_nat (nat (- i)) else show_nat (nat i))"

definition buildPublicUrl :: "config \<Rightarrow> env \<Rightarrow> string \<Rightarrow> string" where
  "buildPublicUrl cfg e outFile =
     (if PUBLIC_BASE_URL cfg \<noteq> [] then PUBLIC_BASE_URL cfg
      else req_protocol e @ ''://'' @ req_host e) @ ''/photos/'' @ outFile"

definition out_file :: "string \<Rightarrow> int \<Rightarrow> string" where
  "out_file userPhone stamp = ''tryon_'' @ userPhone @ ''_'' @ show_int stamp @ ''.png''"

definition default_caption :: string where
  "default_caption = ''Here is your (stylized) try-on preview!''"

definition rich_message :: "config \<Rightarrow> string \<Rightarrow> string \<Rightarrow> string \<Rightarrow> message" where
  "rich_message cfg userPhone publicUrl textResponse =
     RCSImage userPhone (RCS_SENDER_ID cfg) publicUrl
       (if textResponse \<noteq> [] then textResponse else default_caption)"

definition plain_message :: "config \<Rightarrow> string \<Rightarrow> string \<Rightarrow> string \<Rightarrow> message" where
  "plain_message cfg userPhone publicUrl textResponse =
     ImageMessage userPhone (RCS_SENDER_ID cfg) publicUrl
       (if textResponse \<noteq> [] then textResponse else default_caption)"

definition link_message :: "config \<Rightarrow> string \<Rightarrow> string \<Rightarrow> message" where
  "link_message cfg userPhone publicUrl =
     TextMessage userPhone (RCS_SENDER_ID cfg) (''Your preview is ready: '' @ publicUrl)"

text \<open>
  The three \<^verbatim>\<open>try\<close> blocks around \<^verbatim>\<open>vonage.messages.send\<close>, with the flag
  \<^verbatim>\<open>sent\<close> as it stands after the first and after the second block.
\<close>

definition deliver :: "config \<Rightarrow> env \<Rightarrow> string \<Rightarrow> string \<Rightarrow> string \<Rightarrow> action list" where
  "deliver cfg e userPhone publicUrl textResponse =
     (let m1 = rich_message cfg userPhone publicUrl textResponse;
          sent1 = send_ok e m1;
          m2 = plain_message cfg userPhone publicUrl textResponse;
          sent2 = (if \<not> sent1 then send_ok e m2 else sent1);
          m3 = link_message cfg userPhone publicUrl
      in [Send m1 sent1]
         @ (if \<not> sent1 then [Send m2 (send_ok e m2)] else [])
         @ (if \<not> sent2 then [Send m3 (send_ok e m3)] else []))"

section \<open>Conversation controller\<close>

text \<open>
  The handler of \<^verbatim>\<open>POST /webhooks/inbound\<close>, from the point where the sender, the
  text and the media URL have been extracted from the body. The handler is an
  asynchronous function: between two \<^verbatim>\<open>await\<close>s it runs without interruption, and
  at an \<^verbatim>\<open>await\<close> that leaves the process other turns may run on the same
  \<^verbatim>\<open>userSessions\<close>. Each function below is one such uninterrupted segment; a
  \<open>phase\<close> says where the turn is suspended and carries its local variables.
  Console logging is left out.
\<close>

record inbound_message =
  sender :: "string option"
  free_text :: "string option"
  media :: "string option"

record turn =
  userPhone :: string
  text_in :: "string option"
  mediaUrl :: "string option"
  session_ref :: nat
  imageType :: "slot option"

datatype phase =
    Finished
  | AwaitDownload turn
  | AwaitTip turn
  | AwaitGeneration turn gen_request

definition emit :: "action list \<Rightarrow> world \<Rightarrow> world" where
  "emit as w = w\<lparr>trace := trace w @ as\<rparr>"

definition text_message :: "config \<Rightarrow> string \<Rightarrow> string \<Rightarrow> message" where
  "text_message cfg u body = TextMessage u (RCS_SENDER_ID cfg) body"

definition tip :: "config \<Rightarrow> fetch_error \<Rightarrow> string" where
  "tip cfg err =
     (case err of
        UNSUPPORTED_WEBP \<Rightarrow> ''That looks like a WEBP. Please resend as PNG or JPEG.''
      | UNSUPPORTED_HEIC \<Rightarrow> ''That looks like an iPhone HEIC. Please resend as PNG or JPEG.''
      | TOO_LARGE n \<Rightarrow>
          ''That image is too large. Please send a smaller PNG/JPEG (<= ''
            @ show_int (IMAGE_MAX_BYTES cfg) @ '' bytes).''
      | FETCH_FORBIDDEN \<Rightarrow> ''The image link was not accessible. Please resend the image.''
      | _ \<Rightarrow> ''Please resend the image as PNG or JPEG.'')"

definition apology :: string where
  "apology = ''I couldn'' @ [CHR 0xE2, CHR 0x80, CHR 0x99]
               @ ''t render a preview. Use a clear selfie and clothing photo (PNG/JPEG).''"

text \<open>The two \<^verbatim>\<open>updateSession\<close> calls that store a downloaded image.\<close>

definition store_media :: "config \<Rightarrow> string \<Rightarrow> slot \<Rightarrow> fetched \<Rightarrow> world \<Rightarrow> world" where
  "store_media cfg u ty img w =
     (let w1 = (if ty = Selfie then updateSession cfg u (\<lambda>s. s\<lparr>clothing := None\<rparr>) w else w);
          (t, w2) = now w1;
          stored = \<lparr>data = base64 img, mime = img_mime img, ts = t\<rparr>
      in updateSession cfg u
           (case ty of
              Selfie \<Rightarrow> (\<lambda>s. s\<lparr>selfie := Some stored\<rparr>)
            | Clothing \<Rightarrow> (\<lambda>s. s\<lparr>clothing := Some stored\<rparr>)) w2)"

text \<open>The guidance sent when the turn does not generate.\<close>

definition guidance :: "config \<Rightarrow> env \<Rightarrow> turn \<Rightarrow> world \<Rightarrow> world" where
  "guidance cfg e t w =
     (let (s, w1) = getSession cfg (userPhone t) w;
          hint = (if selfie (heap w1 s) \<noteq> None then ''Now send a clothing image (PNG/JPEG).''
                  else ''First send a selfie (PNG/JPEG).'');
          body = (if truthy_str (mediaUrl t) \<or> truthy_str (text_in t) then hint
                  else ''Send a selfie (PNG/JPEG), then a clothing image.'');
          m = text_message cfg (userPhone t) body
      in emit [Send m (send_ok e m), Respond 200] w1)"

text \<open>
  \<^verbatim>\<open>const ready = session.selfie && session.clothing && !session.inProgress\<close>, read
  from the object the turn holds, and the lock taken in the same segment. The two
  images are read from that object after the lock; the test has shown them present.
\<close>

definition ready :: "session \<Rightarrow> bool" where
  "ready s = (selfie s \<noteq> None \<and> clothing s \<noteq> None \<and> \<not> inProgress s)"

definition check_ready :: "config \<Rightarrow> env \<Rightarrow> turn \<Rightarrow> world \<Rightarrow> phase \<times> world" where
  "check_ready cfg e t w =
     (if ready (heap w (session_ref t))
      then (let w1 = updateSession cfg (userPhone t) (\<lambda>s. s\<lparr>inProgress := True\<rparr>) w;
                s1 = heap w1 (session_ref t)
            in (AwaitGeneration t (build_request (the (selfie s1)) (the (clothing s1))), w1))
      else (Finished, guidance cfg e t w))"

definition arrive :: "config \<Rightarrow> env \<Rightarrow> inbound_message \<Rightarrow> world \<Rightarrow> phase \<times> world" where
  "arrive cfg e msg w =
     (if \<not> truthy_str (sender msg) then (Finished, emit [Respond 200] w)
      else (let u = the (sender msg);
                (s, w1) = getSession cfg u w;
                t = \<lparr>userPhone = u, text_in = free_text msg, mediaUrl = media msg,
                     session_ref = s,
                     imageType = classify cfg (free_text msg) (media msg) (heap w1 s)\<rparr>
            in if truthy_str (mediaUrl t) \<and> imageType t \<noteq> None then (AwaitDownload t, w1)
               else check_ready cfg e t w1))"

definition resume_download :: "config \<Rightarrow> env \<Rightarrow> turn \<Rightarrow> world \<Rightarrow> phase \<times> world" where
  "resume_download cfg e t w =
     (case downloadImageAsBase64IfSupported cfg (head_result e) (get_result e) of
        Inr img \<Rightarrow> check_ready cfg e t (store_media cfg (userPhone t) (the (imageType t)) img w)
      | Inl err \<Rightarrow>
          (let m = text_message cfg (userPhone t) (tip cfg err)
           in (AwaitTip t, emit [Send m (send_ok e m)] w)))"

text \<open>The \<^verbatim>\<open>finally\<close> block: \<^verbatim>\<open>const s = getSession(userPhone); s.inProgress = false\<close>.\<close>

definition safety_unlock :: "config \<Rightarrow> string \<Rightarrow> world \<Rightarrow> world" where
  "safety_unlock cfg u w =
     (let (s, w1) = getSession cfg u w
      in w1\<lparr>heap := (heap w1)(s := (heap w1 s)\<lparr>inProgress := False\<rparr>)\<rparr>)"

definition has_data :: "json option \<Rightarrow> bool" where
  "has_data imagePart = (case imagePart of None \<Rightarrow> False | Some ip \<Rightarrow> truthy (get_prop ip ''data''))"

text \<open>
  Everything after the lock: the generation attempt, then either the artifact and its
  delivery or the apology, the reset, the response and the \<^verbatim>\<open>finally\<close> block. None
  of it reads or writes \<^verbatim>\<open>userSessions\<close> before the reset.
\<close>

definition complete_generation :: "config \<Rightarrow> env \<Rightarrow> turn \<Rightarrow> gen_request \<Rightarrow> world \<Rightarrow> world" where
  "complete_generation cfg e t req w =
     (let ((imagePart, textResponse), calls) = generate e req;
          w1 = emit calls w
      in if has_data imagePart
         then (let (stamp, w2) = now w1;
                   outFile = out_file (userPhone t) stamp;
                   w3 = emit [WriteFile outFile (get_prop (the imagePart) ''data'') (write_ok e)] w2;
                   publicUrl = buildPublicUrl cfg e outFile;
                   w4 = emit (deliver cfg e (userPhone t) publicUrl textResponse) w3;
                   w5 = resetSession (userPhone t) w4
               in safety_unlock cfg (userPhone t) (emit [Respond 200] w5))
         else (let m = text_message cfg (userPhone t) apology;
                   w2 = emit [Send m (send_ok e m)] w1;
                   w3 = resetSession (userPhone t) w2
               in safety_unlock cfg (userPhone t) (emit [Respond 200] w3)))"

text \<open>One resumption of a suspended turn, and the whole turn run without interruption.\<close>

definition resume :: "config \<Rightarrow> env \<Rightarrow> phase \<times> world \<Rightarrow> phase \<times> world" where
  "resume cfg e pw =
     (case fst pw of
        Finished \<Rightarrow> pw
      | AwaitDownload t \<Rightarrow> resume_download cfg e t (snd pw)
      | AwaitTip t \<Rightarrow> check_ready cfg e t (snd pw)
      | AwaitGeneration t req \<Rightarrow> (Finished, complete_generation cfg e t req (snd pw)))"

definition inbound :: "config \<Rightarrow> env \<Rightarrow> inbound_message \<Rightarrow> world \<Rightarrow> world" where
  "inbound cfg e msg w = snd (resume cfg e (resume cfg e (resume cfg e (arrive cfg e msg w))))"

section \<open>The earlier handler\<close>

text \<open>
  The repository also holds an earlier version of the handler, without sessions,
  TTL or lock. Its choice of \<^verbatim>\<open>imageType\<close> uses \<^verbatim>\<open>includes\<close> on the lower-cased
  text; \<^verbatim>\<open>text?.toLowerCase()\<close> of a missing text is \<^verbatim>\<open>undefined\<close>.
\<close>

definition classify_basic :: "config \<Rightarrow> string option \<Rightarrow> slot option" where
  "classify_basic cfg text =
     (case text of
        None \<Rightarrow> None
      | Some t \<Rightarrow>
          if str_includes (toLowerCase cfg t) ''selfie'' \<or> str_includes (toLowerCase cfg t) ''me''
          then Some Selfie
          else if str_includes (toLowerCase cfg t) ''clothing'' \<or> str_includes (toLowerCase cfg t) ''dress''
                  \<or> str_includes (toLowerCase cfg t) ''shirt''
          then Some Clothing
          else None)"

section \<open>Predicates used in the statements\<close>

text \<open>
  No session object holds an image in \<open>w'\<close> that it did not hold in \<open>w\<close>: every slot
  is as it was, or empty.
\<close>

definition slots_kept :: "world \<Rightarrow> world \<Rightarrow> bool" where
  "slots_kept w w' =
     (\<forall>a. (selfie (heap w' a) = selfie (heap w a) \<or> selfie (heap w' a) = None)
        \<and> (clothing (heap w' a) = clothing (heap w a) \<or> clothing (heap w' a) = None))"

text \<open>The calls to the generation backend among the actions of a trace.\<close>

fun is_generation_call :: "action \<Rightarrow> bool" where
  "is_generation_call (GenerateContentStream r) = True"
| "is_generation_call (GenerateContent r) = True"
| "is_generation_call a = False"

definition generation_calls :: "world \<Rightarrow> action list" where
  "generation_calls w = filter is_generation_call (trace w)"

text \<open>
  How a turn for user \<open>u\<close> that started in \<open>w\<close> has ended: it is finished, and either it
  made no call to the generation backend or its last segment was the completion of a
  generation for that user.
\<close>

definition settled :: "config \<Rightarrow> env \<Rightarrow> string \<Rightarrow> world \<Rightarrow> phase \<times> world \<Rightarrow> bool" where
  "settled cfg e u w r =
     (fst r = Finished
      \<and> (generation_calls (snd r) = generation_calls w
         \<or> (\<exists>t req w1. userPhone t = u \<and> snd r = complete_generation cfg e t req w1)))"

text \<open>
  A turn whose held session object can not pass the ready test, whatever the turn
  itself still stores: the object is locked, or the slot that the turn does not fill
  is empty.
\<close>

definition cannot_fire :: "turn \<Rightarrow> world \<Rightarrow> bool" where
  "cannot_fire t w =
     (session_ref t < next_ref w
      \<and> (inProgress (heap w (session_ref t))
         \<or> (imageType t \<noteq> Some Clothing \<and> clothing (heap w (session_ref t)) = None)
         \<or> (imageType t \<noteq> Some Selfie \<and> selfie (heap w (session_ref t)) = None)))"

text \<open>
  The classification rule in the specification's words. Case is disregarded letter
  by letter: \<open>fold_case\<close> turns the ASCII capitals into small letters and keeps every
  other character. A text mentions a vocabulary when one of its words occurs in it,
  compared without regard to case, as a whole word: not preceded and not followed by
  a word character.
\<close>

definition lower_char :: "char \<Rightarrow> char" where
  "lower_char c = (case map_of (zip capitals smalls) c of None \<Rightarrow> c | Some l \<Rightarrow> l)"

definition fold_case :: "string \<Rightarrow> string" where
  "fold_case s = map lower_char s"

definition mentions :: "string list \<Rightarrow> string \<Rightarrow> bool" where
  "mentions vocab s =
     (\<exists>pre mid post. s = pre @ mid @ post \<and> fold_case mid \<in> set vocab
        \<and> (pre = [] \<or> \<not> is_word_char (last pre))
        \<and> (post = [] \<or> \<not> is_word_char (hd post)))"

definition classify_spec :: "string option \<Rightarrow> string option \<Rightarrow> session \<Rightarrow> slot option" where
  "classify_spec text url sess =
     (if \<exists>t. text = Some t \<and> mentions selfie_words t then Some Selfie
      else if \<exists>t. text = Some t \<and> mentions clothing_words t then Some Clothing
      else if truthy_str url then (if selfie sess \<noteq> None then Some Clothing else Some Selfie)
      else None)"

text \<open>
  The rule on the lower-cased text: a word of the vocabulary occurs in the string as
  it stands, as a whole word; the text that is lower-cased is a non-empty one.
\<close>

definition whole_word :: "string list \<Rightarrow> string \<Rightarrow> bool" where
  "whole_word vocab s =
     (\<exists>pre w post. s = pre @ w @ post \<and> w \<in> set vocab
        \<and> (pre = [] \<or> \<not> is_word_char (last pre))
        \<and> (post = [] \<or> \<not> is_word_char (hd post)))"

definition classify_lowered ::
  "config \<Rightarrow> string option \<Rightarrow> string option \<Rightarrow> session \<Rightarrow> slot option" where
  "classify_lowered cfg text url sess =
     (if \<exists>t. text = Some t \<and> t \<noteq> [] \<and> whole_word selfie_words (toLowerCase cfg t) then Some Selfie
      else if \<exists>t. text = Some t \<and> t \<noteq> [] \<and> whole_word clothing_words (toLowerCase cfg t)
      then Some Clothing
      else if truthy_str url then (if selfie sess \<noteq> None then Some Clothing else Some Selfie)
      else None)"

text \<open>A vocabulary whose words begin and end with a word character.\<close>

definition wordy :: "string list \<Rightarrow> bool" where
  "wordy alts = (\<forall>w\<in>set alts. w \<noteq> [] \<and> is_word_char (hd w) \<and> is_word_char (last w))"


text \<open>
  Turns that overlap. An object is locked when it is allocated and in progress.
  \<open>other_step\<close> is one segment of any turn, with any outside answers: the arrival of
  a message, a resumption, or a step between two awaits of a generation attempt,
  which leaves the sessions and the table as they are. \<open>interleaved cfg pw pw'\<close>
  follows one turn from \<open>pw\<close>, its phase and the store it left: the turn resumes,
  or a segment of another turn changes the store under it, any number of times and
  in any order.
\<close>

definition locked :: "nat \<Rightarrow> world \<Rightarrow> bool" where
  "locked a w = (a < next_ref w \<and> inProgress (heap w a))"




section \<open>Example inputs\<close>

text \<open>
  A lower-casing that agrees with the platform's on ASCII text and on the two
  characters whose lower case begins with an ASCII letter: the Kelvin sign (U+212A)
  becomes \<^verbatim>\<open>k\<close>, the dotted capital I (U+0130) becomes \<^verbatim>\<open>i\<close> and a combining dot
  (U+0307). Other characters outside ASCII are kept here.
\<close>

definition kelvin_sign :: string where
  "kelvin_sign = [CHR 0xE2, CHR 0x84, CHR 0xAA]"

definition dotted_capital_I :: string where
  "dotted_capital_I = [CHR 0xC4, CHR 0xB0]"

definition i_with_dot :: string where
  "i_with_dot = [CHR ''i'', CHR 0xCC, CHR 0x87]"

fun lower_sample :: "string \<Rightarrow> string" where
  "lower_sample (a # b # c # cs) =
     (if [a, b, c] = kelvin_sign then CHR ''k'' # lower_sample cs
      else if [a, b] = dotted_capital_I then i_with_dot @ lower_sample (c # cs)
      else lower_char a # lower_sample (b # c # cs))"
| "lower_sample [a, b] = (if [a, b] = dotted_capital_I then i_with_dot else [lower_char a, lower_char b])"
| "lower_sample [a] = [lower_char a]"
| "lower_sample [] = []"

text \<open>
  A configuration with the defaults of the source (12 MiB, ten minutes); the encoder
  is a stand-in that keeps the bytes.
\<close>

definition cfg_ex :: config where
  "cfg_ex = \<lparr>IMAGE_MAX_BYTES = 12582912, SESSION_TTL_MS = 600000, RCS_SENDER_ID = ''tryon'',
             PUBLIC_BASE_URL = ''https://tryon.example'', toBase64 = (\<lambda>b. b),
             toLowerCase = lower_sample\<rparr>"

definition alice :: string where
  "alice = ''15550100''"

definition portrait :: image where
  "portrait = \<lparr>data = ''cG9ydHJhaXQ='', mime = ''image/jpeg'', ts = 1000\<rparr>"

definition garment :: image where
  "garment = \<lparr>data = ''Z2FybWVudA=='', mime = ''image/png'', ts = 900\<rparr>"

text \<open>
  A store in which Alice's session (object 0, last updated at 1000) holds a selfie and
  a clothing image; the clock starts at \<open>t0\<close> and advances by one per reading.
\<close>

definition world_at :: "int \<Rightarrow> world" where
  "world_at t0 =
     \<lparr>heap = (\<lambda>a. \<lparr>selfie = Some portrait, clothing = Some garment, inProgress = False,
                   lastUpdated = 1000\<rparr>),
      next_ref = 1,
      userSessions = [alice \<mapsto> 0],
      clock = (\<lambda>n. t0 + int n),
      ticks = 0,
      trace = []\<rparr>"

text \<open>
  Outside answers for one turn: a four-byte PNG behind a probe that declares it, every
  message accepted, a stream whose second event carries the image.
\<close>

definition image_event :: json where
  "image_event =
     JObj [(''candidates'',
            JArr [JObj [(''content'',
                         JObj [(''parts'',
                                JArr [JObj [(''inlineData'',
                                            JObj [(''data'', JStr ''aW1n''),
                                                  (''mimeType'', JStr ''image/png'')])]])])]])]"

definition text_event :: json where
  "text_event = JObj [(''candidates'', JArr []), (''text'', JStr ''Here you go'')]"

definition env_ex :: env where
  "env_ex =
     \<lparr>head_result = Some \<lparr>h_status = 200, h_content_type = Some ''image/png'',
                           h_content_length = Some 4\<rparr>,
      get_result = Some \<lparr>g_status = 200, g_content_type = Some ''image/png'',
                         g_body = Some ''.PNG''\<rparr>,
      send_ok = (\<lambda>m. True),
      stream_result = StreamCompletes [text_event, image_event],
      full_result = None,
      write_ok = True,
      req_protocol = ''https'',
      req_host = ''tryon.example''\<rparr>"

definition msg_ex :: inbound_message where
  "msg_ex = \<lparr>sender = Some alice, free_text = None, media = Some ''https://cdn.example/a''\<rparr>"

definition turn_ex :: turn where
  "turn_ex = \<lparr>userPhone = alice, text_in = None, mediaUrl = Some ''https://cdn.example/a'',
              session_ref = 0, imageType = Some Selfie\<rparr>"

text \<open>The same store while a generation for Alice is in flight.\<close>

definition locked_world :: world where
  "locked_world =
     (world_at 2000)\<lparr>heap := (\<lambda>a. \<lparr>selfie = Some portrait, clothing = Some garment,
                                      inProgress = True, lastUpdated = 1000\<rparr>)\<rparr>"

text \<open>Outside answers when everything fails.\<close>

definition env_down :: env where
  "env_down = env_ex\<lparr>stream_result := StreamCallFails, send_ok := (\<lambda>m. False), write_ok := False\<rparr>"



definition selfie_msg :: inbound_message where
  "selfie_msg = \<lparr>sender = Some alice, free_text = Some ''My selfie'', media = Some ''https://cdn.example/s''\<rparr>"

definition dress_msg :: inbound_message where
  "dress_msg = \<lparr>sender = Some alice, free_text = Some ''the dress'', media = Some ''https://cdn.example/d''\<rparr>"






section \<open>Facts about the session store\<close>

lemma now_simps [simp]:
  "fst (now w) = clock w (ticks w)"
  "heap (snd (now w)) = heap w"
  "next_ref (snd (now w)) = next_ref w"
  "userSessions (snd (now w)) = userSessions w"
  "clock (snd (now w)) = clock w"
  "ticks (snd (now w)) = Suc (ticks w)"
  "trace (snd (now w)) = trace w"
  by (simp_all add: now_def)

lemma install_fresh_simps [simp]:
  "fst (install_fresh u w) = next_ref w"
  "heap (snd (install_fresh u w)) = (heap w)(next_ref w := fresh_session (clock w (ticks w)))"
  "next_ref (snd (install_fresh u w)) = Suc (next_ref w)"
  "userSessions (snd (install_fresh u w)) = (userSessions w)(u \<mapsto> next_ref w)"
  "clock (snd (install_fresh u w)) = clock w"
  "ticks (snd (install_fresh u w)) = Suc (ticks w)"
  "trace (snd (install_fresh u w)) = trace w"
  by (simp_all add: install_fresh_def now_def Let_def)

lemma getSession_None: "userSessions w u = None \<Longrightarrow> getSession cfg u w = install_fresh u w"
  by (simp add: getSession_def)

lemma getSession_Some:
  "userSessions w u = Some a \<Longrightarrow>
   getSession cfg u w =
     (if clock w (ticks w) - lastUpdated (heap w a) > SESSION_TTL_MS cfg
      then install_fresh u (snd (now w)) else (a, snd (now w)))"
  by (simp add: getSession_def now_def Let_def)

text \<open>What every lookup guarantees, whichever branch it takes.\<close>

lemma getSession_table [simp]:
  "userSessions (snd (getSession cfg u w)) u = Some (fst (getSession cfg u w))"
  by (cases "userSessions w u") (simp_all add: getSession_None getSession_Some)

lemma getSession_frame [simp]:
  "trace (snd (getSession cfg u w)) = trace w"
  "clock (snd (getSession cfg u w)) = clock w"
  by (cases "userSessions w u"; simp add: getSession_None getSession_Some)+



lemma getSession_cases:
  "(userSessions w u = Some (fst (getSession cfg u w)) \<and> heap (snd (getSession cfg u w)) = heap w)
   \<or> (\<exists>t. heap (snd (getSession cfg u w)) (fst (getSession cfg u w)) = fresh_session t)"
  by (cases "userSessions w u") (auto simp: getSession_None getSession_Some)

lemma getSession_other_user [simp]:
  "v \<noteq> u \<Longrightarrow> userSessions (snd (getSession cfg u w)) v = userSessions w v"
  by (cases "userSessions w u") (simp_all add: getSession_None getSession_Some)

lemma updateSession_unfold:
  "updateSession cfg u patch w =
     (let s = fst (getSession cfg u w); w1 = snd (getSession cfg u w)
      in w1\<lparr>heap := (heap w1)(s := (patch (heap w1 s))\<lparr>lastUpdated := clock w1 (ticks w1)\<rparr>),
             ticks := Suc (ticks w1)\<rparr>)"
  by (simp add: updateSession_def now_def Let_def split_def)

lemma updateSession_frame [simp]:
  "trace (updateSession cfg u patch w) = trace w"
  "clock (updateSession cfg u patch w) = clock w"
  "userSessions (updateSession cfg u patch w) = userSessions (snd (getSession cfg u w))"
  "next_ref (updateSession cfg u patch w) = next_ref (snd (getSession cfg u w))"
  by (simp_all add: updateSession_unfold Let_def)


text \<open>The table's session after an update is a patched session: the one the table held, or a fresh one.\<close>

lemma updateSession_current:
  "\<exists>s t. current (updateSession cfg u patch w) u = Some ((patch s)\<lparr>lastUpdated := t\<rparr>)
         \<and> (current w u = Some s \<or> (\<exists>t'. s = fresh_session t'))"
  using getSession_cases [of w u cfg]
  by (auto simp: updateSession_unfold Let_def current_def)


lemma resetSession_simps [simp]:
  "heap (resetSession u w) = (heap w)(next_ref w := fresh_session (clock w (ticks w)))"
  "next_ref (resetSession u w) = Suc (next_ref w)"
  "userSessions (resetSession u w) = (userSessions w)(u \<mapsto> next_ref w)"
  "clock (resetSession u w) = clock w"
  "ticks (resetSession u w) = Suc (ticks w)"
  "trace (resetSession u w) = trace w"
  by (simp_all add: resetSession_def)

lemma emit_simps [simp]:
  "heap (emit as w) = heap w"
  "next_ref (emit as w) = next_ref w"
  "userSessions (emit as w) = userSessions w"
  "clock (emit as w) = clock w"
  "ticks (emit as w) = ticks w"
  "trace (emit as w) = trace w @ as"
  by (simp_all add: emit_def)

lemma safety_unlock_unfold:
  "safety_unlock cfg u w =
     (let s = fst (getSession cfg u w); w1 = snd (getSession cfg u w)
      in w1\<lparr>heap := (heap w1)(s := (heap w1 s)\<lparr>inProgress := False\<rparr>)\<rparr>)"
  by (simp add: safety_unlock_def Let_def split_def)

lemma safety_unlock_frame [simp]:
  "trace (safety_unlock cfg u w) = trace w"
  by (simp add: safety_unlock_unfold Let_def)

lemma safety_unlock_current:
  "\<exists>s. current (safety_unlock cfg u w) u = Some (s\<lparr>inProgress := False\<rparr>)
       \<and> (current w u = Some s \<or> (\<exists>t. s = fresh_session t))"
  using getSession_cases [of w u cfg]
  by (auto simp: safety_unlock_unfold Let_def current_def)

lemma reset_then_unlock_empty:
  "\<exists>s. current (safety_unlock cfg u (emit as (resetSession u w))) u = Some s \<and> is_empty s"
proof -
  let ?w = "emit as (resetSession u w)"
  have c: "current ?w u = Some (fresh_session (clock w (ticks w)))"
    by (simp add: current_def)
  from safety_unlock_current [of cfg u ?w] obtain s where
    s: "current (safety_unlock cfg u ?w) u = Some (s\<lparr>inProgress := False\<rparr>)"
    and o: "current ?w u = Some s \<or> (\<exists>t. s = fresh_session t)" by blast
  from o c have "\<exists>t. s = fresh_session t" by auto
  then have "is_empty (s\<lparr>inProgress := False\<rparr>)" by (auto simp: is_empty_def fresh_session_def)
  with s show ?thesis by blast
qed

section \<open>Facts about the image fetcher\<close>

lemma str_includes_sublist: "str_includes s n \<longleftrightarrow> sublist n s"
  by (induction s) (auto simp: sublist_Cons_right)

lemma download_reaches_size_check:
  assumes "headStatus h \<noteq> 401" "headStatus h \<noteq> 403" "res_ok res" "g_body res = Some buf"
  shows "downloadImageAsBase64IfSupported cfg h (Some res) =
     (let ct = resolved_ct cfg h res; len = resolved_len h buf
      in if int len > IMAGE_MAX_BYTES cfg then Inl (TOO_LARGE len)
         else if str_includes ct ''image/png'' then
           Inr \<lparr>base64 = toBase64 cfg buf, img_mime = ''image/png'', img_size = len, contentType = ct\<rparr>
         else if str_includes ct ''image/jpeg'' \<or> str_includes ct ''image/jpg'' then
           Inr \<lparr>base64 = toBase64 cfg buf, img_mime = ''image/jpeg'', img_size = len, contentType = ct\<rparr>
         else Inl (unsupported_code ct))"
  using assms by (simp add: downloadImageAsBase64IfSupported_def Let_def)

section \<open>Segments that store no image\<close>

lemma slots_kept_refl [simp]: "slots_kept w w"
  by (simp add: slots_kept_def)

lemma slots_kept_trans: "slots_kept w w1 \<Longrightarrow> slots_kept w1 w2 \<Longrightarrow> slots_kept w w2"
  unfolding slots_kept_def by metis

lemma slots_kept_heap_eq: "heap w' = heap w \<Longrightarrow> slots_kept w w'"
  by (simp add: slots_kept_def)

lemma slots_kept_getSession: "slots_kept w (snd (getSession cfg u w))"
  by (cases "userSessions w u")
     (auto simp: slots_kept_def getSession_None getSession_Some fresh_session_def)

lemma slots_kept_updateSession:
  assumes "\<And>s. selfie (patch s) = selfie s" "\<And>s. clothing (patch s) = clothing s"
  shows "slots_kept w (updateSession cfg u patch w)"
proof -
  have "slots_kept (snd (getSession cfg u w)) (updateSession cfg u patch w)"
    using assms by (simp add: slots_kept_def updateSession_unfold Let_def)
  with slots_kept_getSession show ?thesis by (rule slots_kept_trans)
qed

lemma slots_kept_reset: "slots_kept w (resetSession u w)"
  by (simp add: slots_kept_def fresh_session_def)

lemma slots_kept_unlock: "slots_kept w (safety_unlock cfg u w)"
proof -
  have "slots_kept (snd (getSession cfg u w)) (safety_unlock cfg u w)"
    by (simp add: slots_kept_def safety_unlock_unfold Let_def)
  with slots_kept_getSession show ?thesis by (rule slots_kept_trans)
qed

lemma slots_kept_emit [simp]: "slots_kept w (emit as w') = slots_kept w w'"
  by (simp add: slots_kept_def)

lemma slots_kept_now [simp]: "slots_kept w (snd (now w')) = slots_kept w w'"
  by (simp add: slots_kept_def)

lemma slots_kept_guidance: "slots_kept w (guidance cfg e t w)"
  using slots_kept_getSession [of w cfg "userPhone t"]
  by (simp add: guidance_def Let_def split_def)

lemma slots_kept_check_ready: "slots_kept w (snd (check_ready cfg e t w))"
  by (simp add: check_ready_def Let_def slots_kept_guidance slots_kept_updateSession)

lemma slots_kept_complete: "slots_kept w (complete_generation cfg e t req w)"
proof -
  have a: "\<And>as bs w1. slots_kept w w1 \<Longrightarrow>
     slots_kept w (safety_unlock cfg (userPhone t) (emit as (resetSession (userPhone t) w1)))"
    by (meson slots_kept_emit slots_kept_reset slots_kept_trans slots_kept_unlock)
  show ?thesis
    by (simp add: complete_generation_def Let_def split_def a)
qed

lemma slots_kept_resume_failed:
  assumes "downloadImageAsBase64IfSupported cfg (head_result e) (get_result e) = Inl err"
  shows "slots_kept w (snd (resume cfg e (p, w)))"
  using assms
  by (cases p) (simp_all add: resume_def resume_download_def Let_def slots_kept_check_ready
      slots_kept_complete)

lemma slots_kept_arrive: "slots_kept w (snd (arrive cfg e msg w))"
proof -
  have "\<And>t. slots_kept w (snd (check_ready cfg e t (snd (getSession cfg (the (sender msg)) w))))"
    by (meson slots_kept_check_ready slots_kept_getSession slots_kept_trans)
  then show ?thesis
    by (simp add: arrive_def Let_def split_def slots_kept_getSession)
qed

lemma slots_kept_inbound_failed:
  assumes "downloadImageAsBase64IfSupported cfg (head_result e) (get_result e) = Inl err"
  shows "slots_kept w (inbound cfg e msg w)"
proof -
  have step: "\<And>pw. slots_kept w (snd pw) \<Longrightarrow> slots_kept w (snd (resume cfg e pw))"
    using slots_kept_resume_failed [OF assms] slots_kept_trans
    by (metis prod.collapse)
  show ?thesis unfolding inbound_def
    by (intro step slots_kept_arrive)
qed

section \<open>Facts about the current session\<close>

lemma current_now [simp]: "current (snd (now w)) u = current w u"
  by (simp add: current_def)

lemma current_emit [simp]: "current (emit as w) u = current w u"
  by (simp add: current_def)

lemma getSession_current:
  "\<exists>s. current (snd (getSession cfg u w)) u = Some s
       \<and> (current w u = Some s \<or> (\<exists>t. s = fresh_session t))"
  using getSession_cases [of w u cfg]
  by (auto simp: current_def)

lemma fresh_session_simps [simp]:
  "selfie (fresh_session t) = None"
  "clothing (fresh_session t) = None"
  "inProgress (fresh_session t) = False"
  "lastUpdated (fresh_session t) = t"
  by (simp_all add: fresh_session_def)

text \<open>The table's session has a property after an update when the patch establishes it.\<close>

lemma updateSession_establishes:
  assumes "\<And>s t. Q ((patch s)\<lparr>lastUpdated := t\<rparr>)"
  shows "\<exists>s. current (updateSession cfg u patch w) u = Some s \<and> Q s"
  using updateSession_current [of cfg u patch w] assms by auto

text \<open>... or keeps it, when the table's session had it before and a fresh session has it.\<close>

lemma updateSession_preserves:
  assumes "\<exists>s. current w u = Some s \<and> Q s"
    and "\<And>t. Q (fresh_session t)"
    and "\<And>s t. Q s \<Longrightarrow> Q ((patch s)\<lparr>lastUpdated := t\<rparr>)"
  shows "\<exists>s. current (updateSession cfg u patch w) u = Some s \<and> Q s"
  using updateSession_current [of cfg u patch w] assms by auto

lemma getSession_preserves:
  assumes "\<exists>s. current w u = Some s \<and> Q s" and "\<And>t. Q (fresh_session t)"
  shows "\<exists>s. current (snd (getSession cfg u w)) u = Some s \<and> Q s"
  using getSession_current [of cfg u w] assms by auto

lemma store_media_selfie:
  "store_media cfg u Selfie img w =
     updateSession cfg u
       (\<lambda>s. s\<lparr>selfie := Some \<lparr>data = base64 img, mime = img_mime img,
                               ts = clock (updateSession cfg u (\<lambda>s. s\<lparr>clothing := None\<rparr>) w)
                                      (ticks (updateSession cfg u (\<lambda>s. s\<lparr>clothing := None\<rparr>) w))\<rparr>\<rparr>)
       (snd (now (updateSession cfg u (\<lambda>s. s\<lparr>clothing := None\<rparr>) w)))"
  by (simp add: store_media_def Let_def split_def)


lemma cleared_first:
  "\<exists>s. current (updateSession cfg u (\<lambda>s. s\<lparr>clothing := None\<rparr>) w) u = Some s \<and> clothing s = None"
  by (rule updateSession_establishes) simp

lemma store_selfie_current:
  "\<exists>s. current (store_media cfg u Selfie img w) u = Some s \<and> clothing s = None
        \<and> (\<exists>t. selfie s = Some \<lparr>data = base64 img, mime = img_mime img, ts = t\<rparr>)"
proof -
  let ?w1 = "updateSession cfg u (\<lambda>s. s\<lparr>clothing := None\<rparr>) w"
  let ?p = "\<lambda>s. s\<lparr>selfie := Some \<lparr>data = base64 img, mime = img_mime img, ts = clock ?w1 (ticks ?w1)\<rparr>\<rparr>"
  from cleared_first [of cfg u w] obtain s1 where
    s1: "current (snd (now ?w1)) u = Some s1" "clothing s1 = None" by auto
  from updateSession_current [of cfg u ?p "snd (now ?w1)"] obtain s t where
    st: "current (updateSession cfg u ?p (snd (now ?w1))) u = Some ((?p s)\<lparr>lastUpdated := t\<rparr>)"
    and o: "current (snd (now ?w1)) u = Some s \<or> (\<exists>t'. s = fresh_session t')" by blast
  from o s1 have "clothing s = None" by auto
  with st show ?thesis by (simp add: store_media_selfie)
qed

lemma check_ready_preserves:
  assumes "\<exists>s. current w (userPhone t) = Some s \<and> Q s" and "\<And>t. Q (fresh_session t)"
    and "\<And>s t. Q s \<Longrightarrow> Q (s\<lparr>inProgress := True, lastUpdated := t\<rparr>)"
  shows "\<exists>s. current (snd (check_ready cfg e t w)) (userPhone t) = Some s \<and> Q s"
proof (cases "ready (heap w (session_ref t))")
  case True
  then show ?thesis
    using updateSession_preserves [of w "userPhone t" Q "\<lambda>s. s\<lparr>inProgress := True\<rparr>" cfg] assms
    by (simp add: check_ready_def Let_def)
next
  case False
  then show ?thesis
    using getSession_preserves [of w "userPhone t" Q cfg] assms(1,2)
    by (simp add: check_ready_def guidance_def Let_def split_def)
qed

section \<open>Facts about generation and delivery\<close>

lemma collect_loop_image:
  "fst (collect_loop ip acc evs) = (case ip of Some x \<Rightarrow> Some x | None \<Rightarrow> findInItems evs)"
  by (induction evs arbitrary: ip acc) (auto simp: Let_def split: option.splits)

lemma collectFromStream_image: "fst (collectFromStream evs) = findInItems evs"
  by (simp add: collectFromStream_def collect_loop_image)

lemma findInItems_None: "findInItems evs = None \<longleftrightarrow> (\<forall>ev\<in>set evs. findInlineData ev = None)"
  by (induction evs) (auto split: option.splits)

lemma generate_completes:
  assumes "stream_result e = StreamCompletes evs"
  shows "generate e req =
     (if findInItems evs = None
      then (((case full_result e of None \<Rightarrow> None | Some full \<Rightarrow> findInlineData full),
             snd (collectFromStream evs) @ (case full_result e of None \<Rightarrow> [] | Some full \<Rightarrow> text_of full)),
            [GenerateContentStream req, GenerateContent req])
      else ((findInItems evs, snd (collectFromStream evs)), [GenerateContentStream req]))"
  using assms collectFromStream_image [of evs]
  by (auto simp: generate_def Let_def split_def split: option.splits)

lemma deliver_not_generation: "filter is_generation_call (deliver cfg e u url txt) = []"
  by (simp add: deliver_def Let_def)

lemma generate_calls_only: "filter is_generation_call (snd (generate e req)) = snd (generate e req)"
  by (auto simp: generate_def Let_def split_def split: stream_outcome.splits option.splits)

lemma complete_generation_trace:
  "trace (complete_generation cfg e t req w) =
     trace w @ snd (generate e req) @
     (if has_data (fst (fst (generate e req)))
      then [WriteFile (out_file (userPhone t) (clock w (ticks w)))
                      (get_prop (the (fst (fst (generate e req)))) ''data'') (write_ok e)]
           @ deliver cfg e (userPhone t)
               (buildPublicUrl cfg e (out_file (userPhone t) (clock w (ticks w))))
               (snd (fst (generate e req)))
           @ [Respond 200]
      else [Send (text_message cfg (userPhone t) apology)
                 (send_ok e (text_message cfg (userPhone t) apology)), Respond 200])"
  by (simp add: complete_generation_def Let_def split_def)

lemma complete_generation_calls:
  "filter is_generation_call (trace (complete_generation cfg e t req w))
     = filter is_generation_call (trace w) @ snd (generate e req)"
  by (simp add: complete_generation_trace generate_calls_only deliver_not_generation)

lemma complete_generation_empty:
  "\<exists>s. current (complete_generation cfg e t req w) (userPhone t) = Some s \<and> is_empty s"
  by (simp add: complete_generation_def Let_def split_def reset_then_unlock_empty)

section \<open>Facts about whole turns\<close>

lemma generation_calls_simps [simp]:
  "generation_calls (emit as w) = generation_calls w @ filter is_generation_call as"
  "generation_calls (snd (now w)) = generation_calls w"
  "generation_calls (snd (getSession cfg u w)) = generation_calls w"
  "generation_calls (updateSession cfg u patch w) = generation_calls w"
  by (simp_all add: generation_calls_def)

lemma store_media_trace [simp]: "generation_calls (store_media cfg u ty img w) = generation_calls w"
  by (simp add: store_media_def Let_def split_def)

lemma guidance_quiet [simp]: "generation_calls (guidance cfg e t w) = generation_calls w"
  by (simp add: guidance_def Let_def split_def)

lemma check_ready_quiet [simp]:
  "generation_calls (snd (check_ready cfg e t w)) = generation_calls w"
  by (simp add: check_ready_def Let_def)

lemma check_ready_phase:
  "fst (check_ready cfg e t w) = Finished \<or> (\<exists>req. fst (check_ready cfg e t w) = AwaitGeneration t req)"
  by (simp add: check_ready_def Let_def)

lemma resume_Finished [simp]: "fst r = Finished \<Longrightarrow> resume cfg e r = r"
  by (simp add: resume_def)

lemma settled_resume: "settled cfg e u w r \<Longrightarrow> settled cfg e u w (resume cfg e r)"
  by (simp add: settled_def)

lemma settle_check:
  assumes "userPhone t = u" and "generation_calls w1 = generation_calls w"
  shows "settled cfg e u w (resume cfg e (check_ready cfg e t w1))"
proof -
  from check_ready_phase [of cfg e t w1]
  consider "fst (check_ready cfg e t w1) = Finished"
    | req where "fst (check_ready cfg e t w1) = AwaitGeneration t req" by blast
  then show ?thesis
  proof cases
    case 1
    then show ?thesis using assms(2) by (simp add: settled_def)
  next
    case 2
    then have "resume cfg e (check_ready cfg e t w1)
        = (Finished, complete_generation cfg e t req (snd (check_ready cfg e t w1)))"
      by (simp add: resume_def)
    then show ?thesis using assms(1) unfolding settled_def by auto
  qed
qed

lemma settle_download:
  assumes "userPhone t = u" and "generation_calls w1 = generation_calls w"
  shows "settled cfg e u w (resume cfg e (resume cfg e (resume_download cfg e t w1)))"
proof (cases "downloadImageAsBase64IfSupported cfg (head_result e) (get_result e)")
  case (Inr img)
  then have "resume_download cfg e t w1
      = check_ready cfg e t (store_media cfg (userPhone t) (the (imageType t)) img w1)"
    by (simp add: resume_download_def)
  then show ?thesis using assms by (simp add: settle_check settled_resume)
next
  case (Inl err)
  then have "resume cfg e (resume_download cfg e t w1)
      = check_ready cfg e t (emit [Send (text_message cfg (userPhone t) (tip cfg err))
            (send_ok e (text_message cfg (userPhone t) (tip cfg err)))] w1)"
    by (simp add: resume_download_def resume_def Let_def)
  then show ?thesis using assms by (simp add: settle_check)
qed

lemma inbound_settled:
  "settled cfg e (the (sender msg)) w
     (resume cfg e (resume cfg e (resume cfg e (arrive cfg e msg w))))"
proof (cases "truthy_str (sender msg)")
  case False
  then show ?thesis by (simp add: arrive_def settled_def)
next
  case True
  let ?u = "the (sender msg)"
  let ?w1 = "snd (getSession cfg ?u w)"
  let ?t = "\<lparr>userPhone = ?u, text_in = free_text msg, mediaUrl = media msg,
             session_ref = fst (getSession cfg ?u w),
             imageType = classify cfg (free_text msg) (media msg) (heap ?w1 (fst (getSession cfg ?u w)))\<rparr>"
  show ?thesis
  proof (cases "truthy_str (mediaUrl ?t) \<and> imageType ?t \<noteq> None")
    case True
    with \<open>truthy_str (sender msg)\<close> have "arrive cfg e msg w = (AwaitDownload ?t, ?w1)"
      by (simp add: arrive_def Let_def split_def)
    then have "resume cfg e (arrive cfg e msg w) = resume_download cfg e ?t ?w1"
      by (simp add: resume_def)
    then show ?thesis by (simp add: settle_download)
  next
    case False
    with \<open>truthy_str (sender msg)\<close> have "arrive cfg e msg w = check_ready cfg e ?t ?w1"
      by (auto simp add: arrive_def Let_def split_def)
    then show ?thesis by (simp add: settle_check settled_resume)
  qed
qed

lemma complete_generation_as_unlock:
  "\<exists>w1. complete_generation cfg e t req w
          = safety_unlock cfg (userPhone t) (emit [Respond 200] (resetSession (userPhone t) w1))"
  by (auto simp: complete_generation_def Let_def split_def)

section \<open>Facts about the regular expressions\<close>

lemma is_word_lower [simp]: "is_word_char (lower_char c) = is_word_char c"
  by (auto simp: lower_char_def is_word_char_def capitals_def smalls_def split: option.splits if_splits)

lemma match_alt_word:
  assumes "w \<noteq> []" "is_word_char (hd w)" "is_word_char (last w)"
  shows "boundary prev (first_char s) \<and> match_alt prev s w
         \<longleftrightarrow> (\<exists>post. s = w @ post \<and> \<not> is_word prev \<and> \<not> is_word (first_char post))"
proof -
  have "is_word (first_char s)" if "prefix w s"
    using that assms(1,2) by (cases w; cases s) auto
  then show ?thesis
    using assms by (auto simp: match_alt_def boundary_def prefix_def)
qed

lemma match_here_word:
  assumes "wordy alts"
  shows "match_here alts prev s
         \<longleftrightarrow> (\<exists>w post. w \<in> set alts \<and> s = w @ post \<and> \<not> is_word prev \<and> \<not> is_word (first_char post))"
proof -
  have "match_here alts prev s
        \<longleftrightarrow> (\<exists>w\<in>set alts. boundary prev (first_char s) \<and> match_alt prev s w)"
    by (auto simp: match_here_def list_ex_iff)
  also have "\<dots> \<longleftrightarrow> (\<exists>w\<in>set alts. \<exists>post. s = w @ post \<and> \<not> is_word prev \<and> \<not> is_word (first_char post))"
    using assms by (intro bex_cong refl match_alt_word) (auto simp: wordy_def)
  finally show ?thesis by blast
qed

lemma regex_test_word:
  assumes "wordy alts"
  shows "regex_test alts prev s
         \<longleftrightarrow> (\<exists>pre w post. s = pre @ w @ post \<and> w \<in> set alts
                \<and> \<not> is_word (if pre = [] then prev else Some (last pre))
                \<and> \<not> is_word (first_char post))"
proof (induction s arbitrary: prev)
  case Nil
  show ?case using assms by (auto simp: match_here_word wordy_def)
next
  case (Cons c cs)
  have "regex_test alts prev (c # cs)
        \<longleftrightarrow> (\<exists>w post. w \<in> set alts \<and> c # cs = w @ post \<and> \<not> is_word prev \<and> \<not> is_word (first_char post))
          \<or> (\<exists>pre w post. cs = pre @ w @ post \<and> w \<in> set alts
                \<and> \<not> is_word (if pre = [] then Some c else Some (last pre))
                \<and> \<not> is_word (first_char post))"
    by (simp add: match_here_word [OF assms] Cons.IH)
  also have "\<dots> \<longleftrightarrow> (\<exists>pre w post. c # cs = pre @ w @ post \<and> w \<in> set alts
                \<and> \<not> is_word (if pre = [] then prev else Some (last pre))
                \<and> \<not> is_word (first_char post))" (is "?L \<longleftrightarrow> ?R")
  proof
    assume ?L
    then show ?R
    proof
      assume "\<exists>w post. w \<in> set alts \<and> c # cs = w @ post \<and> \<not> is_word prev \<and> \<not> is_word (first_char post)"
      then obtain w post where "w \<in> set alts" "c # cs = [] @ w @ post" "\<not> is_word prev"
        "\<not> is_word (first_char post)" by auto
      then show ?R by (intro exI [of _ "[]"] exI [of _ w] exI [of _ post]) simp
    next
      assume "\<exists>pre w post. cs = pre @ w @ post \<and> w \<in> set alts
                \<and> \<not> is_word (if pre = [] then Some c else Some (last pre))
                \<and> \<not> is_word (first_char post)"
      then obtain pre w post where "cs = pre @ w @ post" "w \<in> set alts"
        "\<not> is_word (if pre = [] then Some c else Some (last pre))" "\<not> is_word (first_char post)"
        by blast
      then show ?R by (intro exI [of _ "c # pre"] exI [of _ w] exI [of _ post]) auto
    qed
  next
    assume ?R
    then obtain pre w post where r: "c # cs = pre @ w @ post" "w \<in> set alts"
      "\<not> is_word (if pre = [] then prev else Some (last pre))" "\<not> is_word (first_char post)"
      by blast
    show ?L
    proof (cases pre)
      case Nil
      with r show ?thesis by auto
    next
      case (Cons d pre')
      with r have "cs = pre' @ w @ post" "d = c" by auto
      moreover from r(3) Cons have "\<not> is_word (if pre' = [] then Some c else Some (last pre'))"
        using \<open>d = c\<close> by (auto split: if_splits)
      ultimately show ?thesis using r(2,4) by blast
    qed
  qed
  finally show ?case .
qed

lemma fold_case_append [simp]: "fold_case (a @ b) = fold_case a @ fold_case b"
  by (simp add: fold_case_def)

lemma fold_case_Nil [simp]: "fold_case p = [] \<longleftrightarrow> p = []"
  by (simp add: fold_case_def)

lemma fold_case_split:
  assumes "fold_case s = pre @ w @ post"
  obtains p m q where "s = p @ m @ q" "fold_case p = pre" "fold_case m = w" "fold_case q = post"
proof
  let ?p = "take (length pre) s"
  let ?m = "take (length w) (drop (length pre) s)"
  let ?q = "drop (length w) (drop (length pre) s)"
  show "s = ?p @ ?m @ ?q" by (metis append_take_drop_id)
  have "fold_case ?p = take (length pre) (fold_case s)"
    by (simp add: fold_case_def take_map)
  then show "fold_case ?p = pre" using assms by simp
  have "fold_case ?m = take (length w) (drop (length pre) (fold_case s))"
    by (simp add: fold_case_def take_map drop_map)
  then show "fold_case ?m = w" using assms by simp
  have "fold_case ?q = drop (length w) (drop (length pre) (fold_case s))"
    by (simp add: fold_case_def drop_map)
  then show "fold_case ?q = post" using assms by simp
qed

lemma left_edge_lower:
  "(fold_case p = [] \<or> \<not> is_word_char (last (fold_case p))) \<longleftrightarrow> (p = [] \<or> \<not> is_word_char (last p))"
  by (cases "p = []") (simp_all add: fold_case_def last_map)

lemma right_edge_lower:
  "(fold_case q = [] \<or> \<not> is_word_char (hd (fold_case q))) \<longleftrightarrow> (q = [] \<or> \<not> is_word_char (hd q))"
  by (cases "q = []") (simp_all add: fold_case_def hd_map)

lemma left_edge: "\<not> is_word (if pre = [] then None else Some (last pre)) \<longleftrightarrow> (pre = [] \<or> \<not> is_word_char (last pre))"
  by simp

lemma right_edge: "\<not> is_word (first_char post) \<longleftrightarrow> (post = [] \<or> \<not> is_word_char (hd post))"
  by (cases post) simp_all

lemma regex_test_mentions:
  assumes "wordy vocab"
  shows "regex_test vocab None (fold_case t) \<longleftrightarrow> mentions vocab t"
proof -
  have "regex_test vocab None (fold_case t)
        \<longleftrightarrow> (\<exists>pre w post. fold_case t = pre @ w @ post \<and> w \<in> set vocab
               \<and> (pre = [] \<or> \<not> is_word_char (last pre))
               \<and> (post = [] \<or> \<not> is_word_char (hd post)))" (is "_ \<longleftrightarrow> ?M")
    by (simp only: regex_test_word [OF assms] left_edge right_edge)
  also have "?M \<longleftrightarrow> mentions vocab t"
  proof
    assume ?M
    then obtain pre w post where l: "fold_case t = pre @ w @ post" "w \<in> set vocab"
      "pre = [] \<or> \<not> is_word_char (last pre)" "post = [] \<or> \<not> is_word_char (hd post)"
      by blast
    from l(1) obtain p m q where s: "t = p @ m @ q" "fold_case p = pre" "fold_case m = w"
      "fold_case q = post" by (rule fold_case_split)
    from l(3) s(2) have "p = [] \<or> \<not> is_word_char (last p)"
      using left_edge_lower [of p] by simp
    moreover from l(4) s(4) have "q = [] \<or> \<not> is_word_char (hd q)"
      using right_edge_lower [of q] by simp
    ultimately show "mentions vocab t"
      unfolding mentions_def using s(1,3) l(2) by blast
  next
    assume "mentions vocab t"
    then obtain p m q where s: "t = p @ m @ q" "fold_case m \<in> set vocab"
      "p = [] \<or> \<not> is_word_char (last p)" "q = [] \<or> \<not> is_word_char (hd q)"
      unfolding mentions_def by blast
    have "fold_case t = fold_case p @ fold_case m @ fold_case q"
      using s(1) by simp
    moreover have "fold_case p = [] \<or> \<not> is_word_char (last (fold_case p))"
      using s(3) left_edge_lower [of p] by simp
    moreover have "fold_case q = [] \<or> \<not> is_word_char (hd (fold_case q))"
      using s(4) right_edge_lower [of q] by simp
    ultimately show ?M using s(2) by blast
  qed
  finally show ?thesis .
qed

lemma regex_test_whole_word:
  assumes "wordy vocab"
  shows "regex_test vocab None s \<longleftrightarrow> whole_word vocab s"
  by (simp only: regex_test_word [OF assms] left_edge right_edge whole_word_def)

lemma whole_word_fold: "whole_word vocab (fold_case t) \<longleftrightarrow> mentions vocab t"
  if "wordy vocab"
  using regex_test_mentions [OF that] regex_test_whole_word [OF that] by simp

lemma wordy_vocab: "wordy selfie_words" "wordy clothing_words"
  by (simp_all add: wordy_def selfie_words_def clothing_words_def is_word_char_def capitals_def smalls_def)

lemma mentions_Nil: "wordy vocab \<Longrightarrow> \<not> mentions vocab []"
  by (auto simp: mentions_def wordy_def fold_case_def)

section \<open>Turns that cannot generate\<close>





lemma cannot_fire_emit [simp]: "cannot_fire t (emit as w) = cannot_fire t w"
  by (simp add: cannot_fire_def)






section \<open>Locked objects stay locked\<close>



lemma locked_frame [simp]:
  "locked a (emit as w) = locked a w"
  "locked a (snd (now w)) = locked a w"
  by (simp_all add: locked_def)




lemma locked_reset: "locked a w \<Longrightarrow> locked a (resetSession u w)"
  by (auto simp: locked_def)














section \<open>The example schedule, segment by segment\<close>

lemmas lower_eval =
  kelvin_sign_def dotted_capital_I_def i_with_dot_def lower_char_def capitals_def smalls_def

lemma cfg_ex_fields [simp]:
  "SESSION_TTL_MS cfg_ex = 600000" "RCS_SENDER_ID cfg_ex = ''tryon''"
  "IMAGE_MAX_BYTES cfg_ex = 12582912" "toLowerCase cfg_ex = lower_sample"
  "toBase64 cfg_ex = (\<lambda>b. b)"
  by (simp_all add: cfg_ex_def)


lemmas regex_eval =
  classify_def lower_eval selfie_words_def
  clothing_words_def match_here_def match_alt_def boundary_def is_word_char_def



lemma example_msgs [simp]:
  "sender selfie_msg = Some alice" "sender dress_msg = Some alice" "sender msg_ex = Some alice"
  "truthy_str (media selfie_msg)" "truthy_str (media dress_msg)" "truthy_str (media msg_ex)"
  "alice \<noteq> []"
  by (simp_all add: selfie_msg_def dress_msg_def msg_ex_def alice_def)






section \<open>Session expiry\<close>

text \<open>
  Claim C3. A lookup made strictly more than the configured TTL after the session's
  \<open>lastUpdated\<close> returns a newly allocated session that is empty (no selfie, no
  clothing, not in progress) and installs it as the user's session; a lookup at or
  under the TTL returns the stored object and changes neither it nor the table.
\<close>

theorem getSession_expiry:
  assumes a: "userSessions w u = Some a" and g: "getSession cfg u w = (r, w')"
  shows
   "(if clock w (ticks w) - lastUpdated (heap w a) > SESSION_TTL_MS cfg
     then r = next_ref w \<and> heap w' r = fresh_session (clock w (Suc (ticks w)))
          \<and> is_empty (heap w' r) \<and> current w' u = Some (heap w' r)
     else r = a \<and> heap w' = heap w \<and> userSessions w' = userSessions w
          \<and> current w' u = Some (heap w a))"
proof -
  have r: "r = fst (getSession cfg u w)" and w': "w' = snd (getSession cfg u w)"
    using g by simp_all
  show ?thesis unfolding r w' using a
    by (simp add: getSession_Some current_def is_empty_def fresh_session_def)
qed

theorem getSession_expiry_witness:
  "current (snd (getSession cfg_ex alice (world_at 601001))) alice = Some (fresh_session 601002)
   \<and> fst (getSession cfg_ex alice (world_at 601001)) = 1
   \<and> current (snd (getSession cfg_ex alice (world_at 601000))) alice
       = Some \<lparr>selfie = Some portrait, clothing = Some garment, inProgress = False, lastUpdated = 1000\<rparr>
   \<and> fst (getSession cfg_ex alice (world_at 601000)) = 0"
  using getSession_expiry [of "world_at 601001" alice 0 cfg_ex
          "fst (getSession cfg_ex alice (world_at 601001))"
          "snd (getSession cfg_ex alice (world_at 601001))"]
        getSession_expiry [of "world_at 601000" alice 0 cfg_ex
          "fst (getSession cfg_ex alice (world_at 601000))"
          "snd (getSession cfg_ex alice (world_at 601000))"]
  by (simp add: world_at_def cfg_ex_def getSession_def install_fresh_def now_def current_def
        fresh_session_def)

section \<open>Image ingestion\<close>

text \<open>
  Claim C5. When the download reaches the size check (the probe was not refused and
  the retrieval succeeded) and the resolved length, which is the probe's
  \<^verbatim>\<open>content-length\<close> when it is non-zero and the number of bytes downloaded
  otherwise, exceeds the configured maximum, the download fails with \<open>TOO_LARGE\<close>
  carrying that length, whatever the content types say; the segment that receives
  the failure only sends the tip, and over the whole turn no session object gains an
  image.
\<close>

theorem oversize_never_stored:
  assumes "headStatus (head_result e) \<noteq> 401" and "headStatus (head_result e) \<noteq> 403"
    and "get_result e = Some res" and "res_ok res" and "g_body res = Some buf"
    and "int (resolved_len (head_result e) buf) > IMAGE_MAX_BYTES cfg"
  shows "downloadImageAsBase64IfSupported cfg (head_result e) (get_result e)
           = Inl (TOO_LARGE (resolved_len (head_result e) buf))
         \<and> resume_download cfg e t w
             = (AwaitTip t,
                emit [Send (text_message cfg (userPhone t)
                              (tip cfg (TOO_LARGE (resolved_len (head_result e) buf))))
                        (send_ok e (text_message cfg (userPhone t)
                              (tip cfg (TOO_LARGE (resolved_len (head_result e) buf)))))] w)
         \<and> slots_kept w (inbound cfg e msg w)"
proof -
  have d: "downloadImageAsBase64IfSupported cfg (head_result e) (get_result e)
             = Inl (TOO_LARGE (resolved_len (head_result e) buf))"
    using assms by (simp add: download_reaches_size_check Let_def)
  then show ?thesis
    by (simp add: resume_download_def Let_def slots_kept_inbound_failed)
qed

theorem oversize_never_stored_witness:
  "downloadImageAsBase64IfSupported cfg_ex
      (Some \<lparr>h_status = 200, h_content_type = Some ''image/png'', h_content_length = Some 20000000\<rparr>)
      (get_result env_ex) = Inl (TOO_LARGE 20000000)
   \<and> slots_kept (world_at 2000)
        (inbound cfg_ex
           (env_ex\<lparr>head_result := Some \<lparr>h_status = 200, h_content_type = Some ''image/png'',
                                          h_content_length = Some 20000000\<rparr>\<rparr>)
           msg_ex (world_at 2000))"
  using oversize_never_stored
          [of "env_ex\<lparr>head_result := Some \<lparr>h_status = 200, h_content_type = Some ''image/png'',
                                           h_content_length = Some 20000000\<rparr>\<rparr>"
              "\<lparr>g_status = 200, g_content_type = Some ''image/png'', g_body = Some ''.PNG''\<rparr>"
              "''.PNG''" cfg_ex turn_ex "world_at 2000" msg_ex]
  by (simp add: env_ex_def cfg_ex_def headStatus_def headLen_def resolved_len_def res_ok_def)

text \<open>
  Claim C9. A download that passes the size check is accepted exactly when its
  resolved, lower-cased content type mentions \<^verbatim>\<open>image/png\<close> or \<^verbatim>\<open>image/jpeg\<close>
  (also spelt \<^verbatim>\<open>image/jpg\<close>), and is then returned with the normalised type.
  Every other content type fails: with \<open>UNSUPPORTED_WEBP\<close> when it mentions
  \<^verbatim>\<open>image/webp\<close>, with \<open>UNSUPPORTED_HEIC\<close> when it mentions \<^verbatim>\<open>image/heic\<close> or
  \<^verbatim>\<open>image/heif\<close>, and with \<open>UNSUPPORTED_TYPE\<close> otherwise.
\<close>

theorem accepted_image_types:
  assumes "headStatus h \<noteq> 401" and "headStatus h \<noteq> 403"
    and "res_ok res" and "g_body res = Some buf"
    and "int (resolved_len h buf) \<le> IMAGE_MAX_BYTES cfg"
  shows "downloadImageAsBase64IfSupported cfg h (Some res) =
     (let ct = resolved_ct cfg h res
      in if sublist ''image/png'' ct then
           Inr \<lparr>base64 = toBase64 cfg buf, img_mime = ''image/png'',
                img_size = resolved_len h buf, contentType = ct\<rparr>
         else if sublist ''image/jpeg'' ct \<or> sublist ''image/jpg'' ct then
           Inr \<lparr>base64 = toBase64 cfg buf, img_mime = ''image/jpeg'',
                img_size = resolved_len h buf, contentType = ct\<rparr>
         else if sublist ''image/webp'' ct then Inl UNSUPPORTED_WEBP
         else if sublist ''image/heic'' ct \<or> sublist ''image/heif'' ct then Inl UNSUPPORTED_HEIC
         else Inl UNSUPPORTED_TYPE)"
  using assms
  by (simp add: download_reaches_size_check Let_def unsupported_code_def str_includes_sublist)

theorem accepted_image_types_witness:
  "downloadImageAsBase64IfSupported cfg_ex
      (Some \<lparr>h_status = 200, h_content_type = Some ''image/webp'', h_content_length = None\<rparr>)
      (Some \<lparr>g_status = 200, g_content_type = Some ''image/png'', g_body = Some ''RIFF''\<rparr>)
     = Inl UNSUPPORTED_WEBP
   \<and> downloadImageAsBase64IfSupported cfg_ex None
      (Some \<lparr>g_status = 200, g_content_type = Some ''Image/JPG; q=1'', g_body = Some ''JFIF''\<rparr>)
     = Inr \<lparr>base64 = ''JFIF'', img_mime = ''image/jpeg'', img_size = 4,
            contentType = ''image/jpg; q=1''\<rparr>"
  using accepted_image_types
          [of "Some \<lparr>h_status = 200, h_content_type = Some ''image/webp'', h_content_length = None\<rparr>"
              "\<lparr>g_status = 200, g_content_type = Some ''image/png'', g_body = Some ''RIFF''\<rparr>"
              "''RIFF''" cfg_ex]
        accepted_image_types
          [of None
              "\<lparr>g_status = 200, g_content_type = Some ''Image/JPG; q=1'', g_body = Some ''JFIF''\<rparr>"
              "''JFIF''" cfg_ex]
  by (simp add: headStatus_def headLen_def headCT_def resolved_len_def resolved_ct_def
        res_ok_def header_or_empty_def lower_eval str_includes_sublist [symmetric])

section \<open>Storing a selfie\<close>

text \<open>
  Claim C1. When a turn stores a downloaded selfie, the first update clears the
  clothing slot of the user's session, the second stores the selfie: after the first
  the session has no clothing, after the second it has the new selfie and no
  clothing, and at the end of the segment that received the download the user's
  session still has no clothing.
\<close>

theorem new_selfie_clears_clothing:
  assumes "imageType t = Some Selfie"
    and "downloadImageAsBase64IfSupported cfg (head_result e) (get_result e) = Inr img"
  shows "(\<exists>s. current (updateSession cfg (userPhone t) (\<lambda>s. s\<lparr>clothing := None\<rparr>) w) (userPhone t) = Some s
              \<and> clothing s = None)
       \<and> (\<exists>s. current (store_media cfg (userPhone t) Selfie img w) (userPhone t) = Some s
              \<and> clothing s = None
              \<and> (\<exists>ts. selfie s = Some \<lparr>data = base64 img, mime = img_mime img, ts = ts\<rparr>))
       \<and> (\<exists>s. current (snd (resume_download cfg e t w)) (userPhone t) = Some s \<and> clothing s = None)"
proof -
  have "\<exists>s. current (snd (resume_download cfg e t w)) (userPhone t) = Some s \<and> clothing s = None"
    using assms store_selfie_current [of cfg "userPhone t" img w]
    by (auto simp: resume_download_def intro!: check_ready_preserves)
  then show ?thesis using cleared_first store_selfie_current by blast
qed

text \<open>
  Alice's session holds a selfie and a clothing image; a new selfie arrives and is
  downloaded: the clothing is gone and the selfie is the new one.
\<close>

theorem new_selfie_clears_clothing_witness:
  "current (world_at 2000) alice
     = Some \<lparr>selfie = Some portrait, clothing = Some garment, inProgress = False, lastUpdated = 1000\<rparr>
   \<and> current (snd (resume_download cfg_ex env_ex turn_ex (world_at 2000))) alice
     = Some \<lparr>selfie = Some \<lparr>data = ''.PNG'', mime = ''image/png'', ts = 2002\<rparr>, clothing = None,
             inProgress = False, lastUpdated = 2004\<rparr>"
  using new_selfie_clears_clothing [of turn_ex cfg_ex env_ex
          "\<lparr>base64 = ''.PNG'', img_mime = ''image/png'', img_size = 4, contentType = ''image/png''\<rparr>"
          "world_at 2000"]
  by (simp add: turn_ex_def env_ex_def world_at_def alice_def
        downloadImageAsBase64IfSupported_def headStatus_def headLen_def headCT_def
        resolved_len_def resolved_ct_def res_ok_def header_or_empty_def lower_eval
        resume_download_def store_media_def updateSession_def getSession_def now_def
        check_ready_def ready_def guidance_def emit_def current_def Let_def)

section \<open>Generation and delivery\<close>

text \<open>
  Claim C4. When the stream is consumed to its end and none of its events holds an
  inline image, the turn issues the streaming call and then exactly one non-streaming
  call with the same request, and the image of the turn is what the same search
  finds in that response; it reports that no image was produced only after both
  calls. When an event of the stream holds an inline image, the streaming call is
  the only call and the image is the first one found. (A streaming call that throws,
  or a stream that breaks, ends the attempt in the \<^verbatim>\<open>catch\<close> block without the
  second call.)
\<close>

theorem fallback_exactly_once:
  assumes "stream_result e = StreamCompletes evs"
  shows "(if \<forall>ev\<in>set evs. findInlineData ev = None
          then snd (generate e req) = [GenerateContentStream req, GenerateContent req]
               \<and> fst (fst (generate e req))
                   = (case full_result e of None \<Rightarrow> None | Some full \<Rightarrow> findInlineData full)
          else snd (generate e req) = [GenerateContentStream req]
               \<and> fst (fst (generate e req)) = findInItems evs
               \<and> findInItems evs \<noteq> None)
         \<and> generation_calls (complete_generation cfg e t req w)
             = generation_calls w @ snd (generate e req)
         \<and> (if has_data (fst (fst (generate e req)))
            then \<exists>rest. trace (complete_generation cfg e t req w)
                          = trace w @ snd (generate e req) @ rest @ [Respond 200]
                        \<and> filter is_generation_call rest = []
            else trace (complete_generation cfg e t req w)
                   = trace w @ snd (generate e req)
                     @ [Send (text_message cfg (userPhone t) apology)
                          (send_ok e (text_message cfg (userPhone t) apology)), Respond 200])"
proof -
  have 1: "(\<forall>ev\<in>set evs. findInlineData ev = None) \<longleftrightarrow> findInItems evs = None"
    by (simp add: findInItems_None)
  have 2: "generation_calls (complete_generation cfg e t req w)
             = generation_calls w @ snd (generate e req)"
    by (simp add: generation_calls_def complete_generation_calls)
  show ?thesis
    unfolding 1 2 generate_completes [OF assms]
    by (simp add: complete_generation_trace generate_completes [OF assms] deliver_not_generation)
qed

theorem fallback_exactly_once_witness:
  "generation_calls (complete_generation cfg_ex (env_ex\<lparr>stream_result := StreamCompletes [text_event]\<rparr>)
       turn_ex (build_request portrait garment) (world_at 2000))
     = [GenerateContentStream (build_request portrait garment),
        GenerateContent (build_request portrait garment)]
   \<and> generation_calls (complete_generation cfg_ex env_ex turn_ex (build_request portrait garment)
        (world_at 2000))
     = [GenerateContentStream (build_request portrait garment)]"
  using fallback_exactly_once [of "env_ex\<lparr>stream_result := StreamCompletes [text_event]\<rparr>"
          "[text_event]" "build_request portrait garment" cfg_ex turn_ex "world_at 2000"]
        fallback_exactly_once [of env_ex "[text_event, image_event]"
          "build_request portrait garment" cfg_ex turn_ex "world_at 2000"]
  by (simp add: env_ex_def text_event_def image_event_def generation_calls_def world_at_def)

text \<open>
  Claim C6. Whatever the outside answers, a turn resumed after its generation attempt
  finishes and leaves the user's session empty: no selfie, no clothing, not in
  progress; so does every whole turn that called the generation backend. When the
  streaming call throws, the stream breaks, or the stream completes without an image
  and the non-streaming call throws, the attempt yields no image and the turn sends
  the apology and responds normally.
\<close>

theorem generation_always_resets:
  "(\<exists>s. current (complete_generation cfg e t req w) (userPhone t) = Some s \<and> is_empty s)
   \<and> resume cfg e (AwaitGeneration t req, w) = (Finished, complete_generation cfg e t req w)
   \<and> (generation_calls (inbound cfg e msg w) \<noteq> generation_calls w \<longrightarrow>
        (\<exists>s. current (inbound cfg e msg w) (the (sender msg)) = Some s \<and> is_empty s))
   \<and> (stream_result e = StreamCallFails
        \<or> (\<exists>evs. stream_result e = StreamBreaks evs)
        \<or> (\<exists>evs. stream_result e = StreamCompletes evs \<and> findInItems evs = None
                  \<and> full_result e = None)
      \<longrightarrow> fst (fst (generate e req)) = None
          \<and> trace (complete_generation cfg e t req w)
              = trace w @ snd (generate e req)
                @ [Send (text_message cfg (userPhone t) apology)
                     (send_ok e (text_message cfg (userPhone t) apology)), Respond 200])"
proof -
  have a: "fst (fst (generate e req)) = None" if "stream_result e = StreamCallFails"
    using that by (simp add: generate_def)
  have b: "fst (fst (generate e req)) = None" if "stream_result e = StreamBreaks evs" for evs
    using that by (simp add: generate_def)
  have c: "fst (fst (generate e req)) = None"
    if "stream_result e = StreamCompletes evs" "findInItems evs = None" "full_result e = None"
    for evs
    using that by (simp add: generate_completes)
  let ?failed = "stream_result e = StreamCallFails
        \<or> (\<exists>evs. stream_result e = StreamBreaks evs)
        \<or> (\<exists>evs. stream_result e = StreamCompletes evs \<and> findInItems evs = None
                  \<and> full_result e = None)"
  have n: "fst (fst (generate e req)) = None" if ?failed
    using that a b c by blast
  have "trace (complete_generation cfg e t req w)
          = trace w @ snd (generate e req)
            @ [Send (text_message cfg (userPhone t) apology)
                 (send_ok e (text_message cfg (userPhone t) apology)), Respond 200]" if ?failed
    using n [OF that] by (simp add: complete_generation_trace has_data_def)
  with n have "?failed \<longrightarrow> fst (fst (generate e req)) = None
          \<and> trace (complete_generation cfg e t req w)
              = trace w @ snd (generate e req)
                @ [Send (text_message cfg (userPhone t) apology)
                     (send_ok e (text_message cfg (userPhone t) apology)), Respond 200]"
    by blast
  moreover have "resume cfg e (AwaitGeneration t req, w)
                   = (Finished, complete_generation cfg e t req w)"
    by (simp add: resume_def)
  moreover have "\<exists>s. current (inbound cfg e msg w) (the (sender msg)) = Some s \<and> is_empty s"
    if "generation_calls (inbound cfg e msg w) \<noteq> generation_calls w"
  proof -
    from inbound_settled [of cfg e msg w] that
    obtain t' req' w1 where "userPhone t' = the (sender msg)"
      and "inbound cfg e msg w = complete_generation cfg e t' req' w1"
      by (auto simp: settled_def inbound_def)
    then show ?thesis
      using complete_generation_empty [of cfg e t' req' w1] by auto
  qed
  ultimately show ?thesis
    using complete_generation_empty [of cfg e t req w] by blast
qed

theorem generation_always_resets_witness:
  "current (complete_generation cfg_ex (env_ex\<lparr>stream_result := StreamCallFails\<rparr>) turn_ex
       (build_request portrait garment) (world_at 2000)) alice
     = Some (fresh_session 2000)
   \<and> trace (complete_generation cfg_ex (env_ex\<lparr>stream_result := StreamCallFails\<rparr>) turn_ex
       (build_request portrait garment) (world_at 2000))
     = [GenerateContentStream (build_request portrait garment),
        Send (TextMessage alice ''tryon'' apology) True, Respond 200]"
  using generation_always_resets [of cfg_ex "env_ex\<lparr>stream_result := StreamCallFails\<rparr>" turn_ex
          "build_request portrait garment" "world_at 2000" msg_ex]
  by (simp add: env_ex_def turn_ex_def cfg_ex_def world_at_def generate_def text_message_def
        complete_generation_def has_data_def emit_def resetSession_def install_fresh_def
        safety_unlock_def getSession_def now_def current_def fresh_session_def Let_def)

text \<open>
  Claim C7. Delivery sends the rich image message; only if that fails, the plain image
  message; only if that fails too, the text message with the public URL. A failure
  never stops the chain, and whatever the third send does the turn goes on to its
  response and finishes.
\<close>

theorem delivery_fallback_chain:
  "deliver cfg e u url answer =
     (if send_ok e (rich_message cfg u url answer)
      then [Send (rich_message cfg u url answer) True]
      else if send_ok e (plain_message cfg u url answer)
      then [Send (rich_message cfg u url answer) False, Send (plain_message cfg u url answer) True]
      else [Send (rich_message cfg u url answer) False,
            Send (plain_message cfg u url answer) False,
            Send (TextMessage u (RCS_SENDER_ID cfg) (''Your preview is ready: '' @ url))
                 (send_ok e (link_message cfg u url))])
   \<and> (has_data (fst (fst (generate e req))) \<longrightarrow>
        trace (complete_generation cfg e t req w)
          = trace w @ snd (generate e req)
            @ [WriteFile (out_file (userPhone t) (clock w (ticks w)))
                 (get_prop (the (fst (fst (generate e req)))) ''data'') (write_ok e)]
            @ deliver cfg e (userPhone t)
                (buildPublicUrl cfg e (out_file (userPhone t) (clock w (ticks w))))
                (snd (fst (generate e req)))
            @ [Respond 200])
   \<and> resume cfg e (AwaitGeneration t req, w) = (Finished, complete_generation cfg e t req w)"
  by (simp add: deliver_def Let_def link_message_def complete_generation_trace resume_def)

theorem delivery_fallback_chain_witness:
  "trace (complete_generation cfg_ex (env_ex\<lparr>send_ok := (\<lambda>m. False)\<rparr>) turn_ex
       (build_request portrait garment) (world_at 2000))
     = [GenerateContentStream (build_request portrait garment),
        WriteFile ''tryon_15550100_2000.png'' (JStr ''aW1n'') True,
        Send (RCSImage alice ''tryon'' ''https://tryon.example/photos/tryon_15550100_2000.png''
               ''Here you go'') False,
        Send (ImageMessage alice ''tryon'' ''https://tryon.example/photos/tryon_15550100_2000.png''
               ''Here you go'') False,
        Send (TextMessage alice ''tryon''
               ''Your preview is ready: https://tryon.example/photos/tryon_15550100_2000.png'') False,
        Respond 200]"
  using delivery_fallback_chain [of cfg_ex "env_ex\<lparr>send_ok := (\<lambda>m. False)\<rparr>" alice
          "''https://tryon.example/photos/tryon_15550100_2000.png''" "''Here you go''"
          "build_request portrait garment" turn_ex "world_at 2000"]
  by (simp add: env_ex_def turn_ex_def cfg_ex_def world_at_def alice_def generate_def
        collectFromStream_def text_event_def image_event_def text_of_def has_data_def
        rich_message_def plain_message_def link_message_def out_file_def show_int_def
        show_nat.simps buildPublicUrl_def Let_def)

section \<open>The lock is released\<close>

text \<open>
  Claim C10. A turn suspended in its generation attempt, resumed on any store and
  with any outcome of generation, saving and delivery, finishes with the user's
  session not in progress: its last two steps are the reset and, after it, the unlock
  of the \<^verbatim>\<open>finally\<close> block. Hence every whole turn that called the generation
  backend leaves the sender's session not in progress. The \<^verbatim>\<open>finally\<close> block
  itself, run on any store, leaves the user's session not in progress: it is the
  session the table held with the flag cleared, or a fresh one when that had expired
  or was missing; on a session within its TTL it changes that object's flag and
  nothing else in the heap.
\<close>

theorem generation_turn_unlocks:
  "(resume cfg e (AwaitGeneration t req, w) = (p, w') \<longrightarrow>
      p = Finished \<and> (\<exists>s. current w' (userPhone t) = Some s \<and> \<not> inProgress s))
   \<and> (\<exists>w1. complete_generation cfg e t req w
          = safety_unlock cfg (userPhone t) (emit [Respond 200] (resetSession (userPhone t) w1)))
   \<and> (generation_calls (inbound cfg e msg w) \<noteq> generation_calls w \<longrightarrow>
        (\<exists>s. current (inbound cfg e msg w) (the (sender msg)) = Some s \<and> \<not> inProgress s))
   \<and> (\<exists>s. current (safety_unlock cfg u w0) u = Some (s\<lparr>inProgress := False\<rparr>)
          \<and> (current w0 u = Some s \<or> (\<exists>t0. s = fresh_session t0)))
   \<and> (userSessions w0 u = Some a
        \<and> clock w0 (ticks w0) - lastUpdated (heap w0 a) \<le> SESSION_TTL_MS cfg \<longrightarrow>
        fst (getSession cfg u w0) = a
        \<and> heap (safety_unlock cfg u w0) = (heap w0)(a := (heap w0 a)\<lparr>inProgress := False\<rparr>))"
proof -
  have 1: "p = Finished \<and> (\<exists>s. current w' (userPhone t) = Some s \<and> \<not> inProgress s)"
    if "resume cfg e (AwaitGeneration t req, w) = (p, w')"
    using that complete_generation_empty [of cfg e t req w]
    by (auto simp: resume_def is_empty_def)
  have 3: "\<exists>s. current (inbound cfg e msg w) (the (sender msg)) = Some s \<and> \<not> inProgress s"
    if "generation_calls (inbound cfg e msg w) \<noteq> generation_calls w"
  proof -
    from inbound_settled [of cfg e msg w] that
    obtain t' req' w1 where "userPhone t' = the (sender msg)"
      and "inbound cfg e msg w = complete_generation cfg e t' req' w1"
      by (auto simp: settled_def inbound_def)
    then show ?thesis
      using complete_generation_empty [of cfg e t' req' w1] by (auto simp: is_empty_def)
  qed
  have 5: "fst (getSession cfg u w0) = a
        \<and> heap (safety_unlock cfg u w0) = (heap w0)(a := (heap w0 a)\<lparr>inProgress := False\<rparr>)"
    if "userSessions w0 u = Some a
        \<and> clock w0 (ticks w0) - lastUpdated (heap w0 a) \<le> SESSION_TTL_MS cfg"
    using that by (simp add: safety_unlock_unfold getSession_Some Let_def)
  show ?thesis
  proof (intro conjI impI)
    show "\<exists>w1. complete_generation cfg e t req w
          = safety_unlock cfg (userPhone t) (emit [Respond 200] (resetSession (userPhone t) w1))"
      by (rule complete_generation_as_unlock)
    show "\<exists>s. current (safety_unlock cfg u w0) u = Some (s\<lparr>inProgress := False\<rparr>)
          \<and> (current w0 u = Some s \<or> (\<exists>t0. s = fresh_session t0))"
      by (rule safety_unlock_current)
  qed (use 1 3 5 in simp_all)
qed



theorem generation_turn_unlocks_witness:
  "current locked_world alice
     = Some \<lparr>selfie = Some portrait, clothing = Some garment, inProgress = True, lastUpdated = 1000\<rparr>
   \<and> current (safety_unlock cfg_ex alice locked_world) alice
     = Some \<lparr>selfie = Some portrait, clothing = Some garment, inProgress = False, lastUpdated = 1000\<rparr>
   \<and> fst (resume cfg_ex env_down (AwaitGeneration turn_ex (build_request portrait garment), locked_world))
     = Finished
   \<and> current (snd (resume cfg_ex env_down
                     (AwaitGeneration turn_ex (build_request portrait garment), locked_world))) alice
     = Some (fresh_session 2000)"
  using generation_turn_unlocks [of cfg_ex env_down turn_ex "build_request portrait garment"
          locked_world
          "fst (resume cfg_ex env_down
                  (AwaitGeneration turn_ex (build_request portrait garment), locked_world))"
          "snd (resume cfg_ex env_down
                  (AwaitGeneration turn_ex (build_request portrait garment), locked_world))"
          msg_ex alice locked_world 0]
  by (simp add: env_down_def env_ex_def turn_ex_def locked_world_def world_at_def
        resume_def generate_def complete_generation_def has_data_def emit_def resetSession_def
        install_fresh_def safety_unlock_def getSession_def now_def current_def fresh_session_def
        Let_def)

section \<open>Classification\<close>

text \<open>
  Claim C8, as amended. The handler's choice of the slot is this rule on the text as
  the platform lower-cases it: selfie when the non-empty text, lower-cased, holds
  \<^verbatim>\<open>selfie|me|face|portrait\<close> as a whole word; otherwise clothing when it holds
  \<^verbatim>\<open>clothing|dress|shirt|outfit|attire|wear\<close> as a whole word; otherwise, with
  media present, clothing when the session holds a selfie and selfie when it does
  not; otherwise no slot. For every text that lower-casing changes only in its ASCII
  capitals this is the rule of the claim: a whole-word match in the text itself,
  whatever the case of its letters.
\<close>

theorem classify_on_lowered_text:
  "classify cfg text url sess = classify_lowered cfg text url sess
   \<and> ((\<forall>t. text = Some t \<longrightarrow> toLowerCase cfg t = fold_case t)
      \<longrightarrow> classify cfg text url sess = classify_spec text url sess)"
proof (cases "text")
  case None
  then show ?thesis by (simp add: classify_def classify_lowered_def classify_spec_def)
next
  case (Some t)
  have 1: "classify cfg text url sess = classify_lowered cfg text url sess"
    using Some
    by (auto simp: classify_def classify_lowered_def Let_def regex_test_whole_word wordy_vocab)
  have 2: "classify_lowered cfg text url sess = classify_spec text url sess"
    if "toLowerCase cfg t = fold_case t"
    using Some that mentions_Nil [OF wordy_vocab(1)] mentions_Nil [OF wordy_vocab(2)]
    by (auto simp: classify_lowered_def classify_spec_def whole_word_fold wordy_vocab)
  from 1 2 Some show ?thesis by simp
qed

theorem classify_on_lowered_text_witness:
  "classify_lowered cfg_ex (Some ''Here is ME!'') (Some ''https://cdn.example/a'') (fresh_session 0)
     = Some Selfie
   \<and> classify_spec (Some ''Here is ME!'') (Some ''https://cdn.example/a'') (fresh_session 0)
     = Some Selfie
   \<and> classify_lowered cfg_ex (Some ''home'') (Some ''https://cdn.example/a'')
        \<lparr>selfie = Some portrait, clothing = None, inProgress = False, lastUpdated = 0\<rparr> = Some Clothing
   \<and> classify_spec (Some ''my new Shirt'') None (fresh_session 0) = Some Clothing"
proof -
  let ?u = "Some ''https://cdn.example/a''"
  let ?s = "\<lparr>selfie = Some portrait, clothing = None, inProgress = False, lastUpdated = 0\<rparr>"
  have e1: "classify cfg_ex (Some ''Here is ME!'') ?u (fresh_session 0) = Some Selfie"
    and e2: "classify cfg_ex (Some ''home'') ?u ?s = Some Clothing"
    and e3: "classify cfg_ex (Some ''my new Shirt'') None (fresh_session 0) = Some Clothing"
    by (simp_all add: regex_eval)
  have h1: "\<forall>t. Some ''Here is ME!'' = Some t \<longrightarrow> toLowerCase cfg_ex t = fold_case t"
    and h3: "\<forall>t. Some ''my new Shirt'' = Some t \<longrightarrow> toLowerCase cfg_ex t = fold_case t"
    by (simp_all add: fold_case_def lower_eval)
  from classify_on_lowered_text [of cfg_ex "Some ''Here is ME!''" ?u "fresh_session 0"] e1 h1
  have "classify_lowered cfg_ex (Some ''Here is ME!'') ?u (fresh_session 0) = Some Selfie
        \<and> classify_spec (Some ''Here is ME!'') ?u (fresh_session 0) = Some Selfie"
    by metis
  moreover from classify_on_lowered_text [of cfg_ex "Some ''home''" ?u ?s] e2
  have "classify_lowered cfg_ex (Some ''home'') ?u ?s = Some Clothing"
    by metis
  moreover from classify_on_lowered_text [of cfg_ex "Some ''my new Shirt''" None "fresh_session 0"] e3 h3
  have "classify_spec (Some ''my new Shirt'') None (fresh_session 0) = Some Clothing"
    by metis
  ultimately show ?thesis by blast
qed

text \<open>
  The claim as stated fails on a text that lower-casing changes outside ASCII. In the
  Kelvin sign followed by \<^verbatim>\<open>me\<close> the word stands after a non-word character; the
  handler lower-cases the text to \<^verbatim>\<open>kme\<close>, finds no whole word, and with a selfie
  in the session takes the image for clothing.
\<close>

theorem kelvin_sign_hides_the_word:
  "classify cfg_ex (Some (kelvin_sign @ ''me'')) (Some ''https://cdn.example/a'')
      \<lparr>selfie = Some portrait, clothing = None, inProgress = False, lastUpdated = 0\<rparr> = Some Clothing
   \<and> classify_spec (Some (kelvin_sign @ ''me'')) (Some ''https://cdn.example/a'')
      \<lparr>selfie = Some portrait, clothing = None, inProgress = False, lastUpdated = 0\<rparr> = Some Selfie"
proof -
  have "mentions selfie_words (kelvin_sign @ ''me'')"
    unfolding regex_test_mentions [OF wordy_vocab(1), symmetric]
    by (simp add: fold_case_def regex_eval)
  then show ?thesis
    by (simp add: classify_spec_def regex_eval)
qed

text \<open>
  The earlier handler decides differently: it looks for the words anywhere in the
  text, so that \<^verbatim>\<open>home\<close> counts as a mention of \<^verbatim>\<open>me\<close>, and it knows neither
  \<^verbatim>\<open>face\<close> nor a default for unlabelled media.
\<close>

lemma earlier_handler_differs:
  "classify_basic cfg_ex (Some ''home'') = Some Selfie
   \<and> classify cfg_ex (Some ''home'') None sess = None
   \<and> classify_basic cfg_ex (Some ''my face'') = None
   \<and> classify cfg_ex (Some ''my face'') None sess = Some Selfie"
  by (simp add: classify_basic_def regex_eval)

section \<open>The generation lock\<close>




end
